theory Spec2Isabelle
  imports Main
begin

section \<open>Map flattening tool: the model of \<open>src/utils/flatten_map.py\<close>\<close>

text \<open>
  The script rewrites a voxel map: a JSON object whose \<open>blocks\<close> member maps coordinate
  strings \<open>"x,y,z"\<close> to block type ids. The model below follows the script function by
  function. Python's unbounded integers are \<open>int\<close>; a Python \<open>str\<close> is a \<open>string\<close>, one
  \<open>char\<close> per code point, so the model covers the strings whose code points are below 256;
  a \<open>dict\<close> is an association list in insertion order whose keys are pairwise distinct;
  an exception is the left summand of a sum type. Reading and writing the files and the
  console output are not modelled. The interpreter refuses, with \<open>ValueError\<close>, to convert
  between \<open>str\<close> and \<open>int\<close> a number of more than \<open>default_max_str_digits\<close> decimal
  digits; \<open>int_str\<close> and \<open>str_int\<close> below are the two conversions within that limit, and
  what is stated about the conversions on their own is stated within it. A run of the script
  converts to a string only numbers that lie between two numbers it has parsed, and 0, 1
  and 2, so a run that succeeds stays within the limit.
\<close>

subsection \<open>Exceptions\<close>

datatype value_error =
    invalid_literal string
  | not_enough_values nat
  | too_many_values
  | min_empty_sequence
  | max_empty_sequence

datatype error = ValueError value_error | AttributeError string

subsection \<open>Module constants\<close>

definition TARGET_HEIGHT :: int where
  "TARGET_HEIGHT = 0"

definition CENTER_MARKER_HEIGHT :: int where
  "CENTER_MARKER_HEIGHT = 2"

subsection \<open>The builtins \<open>str.split\<close>, \<open>int\<close> and \<open>str\<close> on integers\<close>

text \<open>\<open>s.split(sep)\<close> for a separator of one character: the fields between the
  separators, the empty ones included; the result is never empty.\<close>

fun split_sep :: "char \<Rightarrow> string \<Rightarrow> string list" where
  "split_sep sep [] = [[]]"
| "split_sep sep (c # cs) =
     (if c = sep then [] # split_sep sep cs
      else (case split_sep sep cs of
              [] \<Rightarrow> [[c]]
            | f # fs \<Rightarrow> (c # f) # fs))"

definition is_digit :: "char \<Rightarrow> bool" where
  "is_digit c = (48 \<le> (of_char c :: nat) \<and> (of_char c :: nat) \<le> 57)"

definition digit_val :: "char \<Rightarrow> int" where
  "digit_val c = int (of_char c) - 48"

definition digit_char :: "nat \<Rightarrow> char" where
  "digit_char d = char_of (48 + d)"

text \<open>The characters that \<open>int\<close> skips around a literal: tab, line feed, vertical tab,
  form feed, carriage return and space, and among the code points from 128 to 255 the two
  Unicode spaces, next line (133) and no-break space (160).\<close>

definition is_space :: "char \<Rightarrow> bool" where
  "is_space c = ((of_char c :: nat) \<in> {9, 10, 11, 12, 13, 32, 133, 160})"

definition is_underscore :: "char \<Rightarrow> bool" where
  "is_underscore c = (c = CHR ''_'')"

text \<open>The digit part of a literal: it starts and ends with a digit, and an underscore
  stands only between two digits.\<close>

fun valid_body :: "string \<Rightarrow> bool" where
  "valid_body [] = False"
| "valid_body [c] = is_digit c"
| "valid_body (c # d # cs) =
     (if is_digit c then
        (if is_underscore d then valid_body cs else valid_body (d # cs))
      else False)"

definition body_value :: "string \<Rightarrow> int" where
  "body_value b = foldl (\<lambda>a c. 10 * a + digit_val c) 0 (filter is_digit b)"

text \<open>\<open>int(s)\<close> in base 10, for a string within the limit on the digits (see below):
  leading space, an optional sign, the digit part, trailing space, and nothing else; any
  other string raises \<open>ValueError\<close>.\<close>

definition int_str :: "string \<Rightarrow> error + int" where
  "int_str s =
     (let t = dropWhile is_space s;
          neg = (case t of [] \<Rightarrow> False | c # _ \<Rightarrow> c = CHR ''-'');
          u = (case t of [] \<Rightarrow> []
               | c # cs \<Rightarrow> if c = CHR ''+'' \<or> c = CHR ''-'' then cs else t);
          b = takeWhile (\<lambda>c. is_digit c \<or> is_underscore c) u;
          r = dropWhile (\<lambda>c. is_digit c \<or> is_underscore c) u
      in if valid_body b \<and> dropWhile is_space r = []
         then Inr (if neg then - body_value b else body_value b)
         else Inl (ValueError (invalid_literal s)))"

text \<open>\<open>str(n)\<close> for an integer within the limit on the digits (see below): the decimal
  digits, most significant first, after a minus sign when the number is negative.\<close>

fun str_nat :: "nat \<Rightarrow> string" where
  "str_nat n = (if n < 10 then [digit_char n] else str_nat (n div 10) @ [digit_char (n mod 10)])"

declare str_nat.simps [simp del]

definition str_int :: "int \<Rightarrow> string" where
  "str_int i = (if i < 0 then CHR ''-'' # str_nat (nat (- i)) else str_nat (nat i))"

text \<open>The limit on the conversions, \<open>sys.int_info.default_max_str_digits\<close>: \<open>str(n)\<close> raises
  \<open>ValueError\<close> when the numeral of \<open>n\<close>, without its sign, has more digits than the limit,
  and \<open>int(s)\<close> raises \<open>ValueError\<close> when \<open>s\<close> has more digit characters than the limit.
  \<open>str_digits\<close> and \<open>int_digits\<close> are the two numbers of digits that are compared with it.\<close>

definition default_max_str_digits :: nat where
  "default_max_str_digits = 4300"

definition str_digits :: "int \<Rightarrow> nat" where
  "str_digits v = length (str_nat (nat \<bar>v\<bar>))"

definition int_digits :: "string \<Rightarrow> nat" where
  "int_digits s = length (filter is_digit s)"

subsection \<open>Coordinates\<close>

record Coordinates =
  x :: int
  y :: int
  z :: int

text \<open>\<open>x, y, z = map(int, coord_str.split(','))\<close>: the fields are converted one by one while
  the unpacking asks for them, so the first failure in reading order is the one raised.\<close>

definition from_string :: "string \<Rightarrow> error + Coordinates" where
  "from_string coord_str =
     (case split_sep (CHR '','') coord_str of
        [] \<Rightarrow> Inl (ValueError (not_enough_values 0))
      | f1 # r1 \<Rightarrow>
          (case int_str f1 of Inl e \<Rightarrow> Inl e | Inr vx \<Rightarrow>
           (case r1 of
              [] \<Rightarrow> Inl (ValueError (not_enough_values 1))
            | f2 # r2 \<Rightarrow>
                (case int_str f2 of Inl e \<Rightarrow> Inl e | Inr vy \<Rightarrow>
                 (case r2 of
                    [] \<Rightarrow> Inl (ValueError (not_enough_values 2))
                  | f3 # r3 \<Rightarrow>
                      (case int_str f3 of Inl e \<Rightarrow> Inl e | Inr vz \<Rightarrow>
                       (case r3 of
                          [] \<Rightarrow> Inr \<lparr>x = vx, y = vy, z = vz\<rparr>
                        | f4 # _ \<Rightarrow>
                            (case int_str f4 of Inl e \<Rightarrow> Inl e
                             | Inr _ \<Rightarrow> Inl (ValueError too_many_values)))))))))"

definition to_string :: "Coordinates \<Rightarrow> string" where
  "to_string c = str_int (x c) @ '','' @ str_int (y c) @ '','' @ str_int (z c)"

subsection \<open>Dictionaries\<close>

text \<open>\<open>d[k] = v\<close>: an existing key keeps its place and takes the new value, a new key goes to
  the end.\<close>

fun setitem :: "('k \<times> 'v) list \<Rightarrow> 'k \<Rightarrow> 'v \<Rightarrow> ('k \<times> 'v) list" where
  "setitem [] k v = [(k, v)]"
| "setitem (p # d) k v = (if fst p = k then (k, v) # d else p # setitem d k v)"

text \<open>\<open>d.update(other)\<close>: every item of \<open>other\<close>, in its order, is stored into \<open>d\<close>.\<close>

definition update_dict :: "('k \<times> 'v) list \<Rightarrow> ('k \<times> 'v) list \<Rightarrow> ('k \<times> 'v) list" where
  "update_dict d other = fold (\<lambda>p acc. setitem acc (fst p) (snd p)) other d"

text \<open>A \<open>for\<close> loop over a list whose body may raise: the first exception ends the loop.\<close>

fun for_loop :: "('a \<Rightarrow> 's \<Rightarrow> error + 's) \<Rightarrow> 'a list \<Rightarrow> 's \<Rightarrow> error + 's" where
  "for_loop body [] s = Inr s"
| "for_loop body (a # as) s =
     (case body a s of Inl e \<Rightarrow> Inl e | Inr s' \<Rightarrow> for_loop body as s')"

text \<open>\<open>range(a, b)\<close>.\<close>

definition range_int :: "int \<Rightarrow> int \<Rightarrow> int list" where
  "range_int a b = [a..b - 1]"

text \<open>\<open>min\<close> and \<open>max\<close> of a sequence of integers; the empty sequence raises.\<close>

definition min_seq :: "int list \<Rightarrow> error + int" where
  "min_seq vs = (case vs of [] \<Rightarrow> Inl (ValueError min_empty_sequence) | v # r \<Rightarrow> Inr (fold min r v))"

definition max_seq :: "int list \<Rightarrow> error + int" where
  "max_seq vs = (case vs of [] \<Rightarrow> Inl (ValueError max_empty_sequence) | v # r \<Rightarrow> Inr (fold max r v))"

subsection \<open>Block types\<close>

record BlockData =
  id' :: int
  name :: string
  textureUri :: string
  isLiquid :: bool

record MapData =
  blockTypes :: "BlockData list"
  blocks :: "(string \<times> int) list"

text \<open>An instance of the class \<open>BlockTypes\<close>: \<open>attrs\<close> holds the attributes that
  \<open>__init__\<close> sets from the block names, \<open>u_blocks\<close> is the attribute \<open>_blocks\<close>.\<close>

record BlockTypes =
  attrs :: "string \<rightharpoonup> int"
  u_blocks :: "int \<rightharpoonup> BlockData"

text \<open>\<open>s.replace(a, b)\<close> for single characters.\<close>

definition replace_char :: "char \<Rightarrow> char \<Rightarrow> string \<Rightarrow> string" where
  "replace_char a b s = map (\<lambda>c. if c = a then b else c) s"

text \<open>\<open>BlockTypes.__init__\<close>. The case mapping of \<open>str.upper\<close> is a table of the Python
  library and not of this script, so the function is a parameter, \<open>upper\<close>. A later block
  of the same attribute name replaces an earlier one. The assignment to \<open>_blocks\<close> that ends
  \<open>__init__\<close> replaces an id stored under that very name, which then is no integer
  attribute any more.\<close>

definition BlockTypes_init :: "(string \<Rightarrow> string) \<Rightarrow> BlockData list \<Rightarrow> BlockTypes" where
  "BlockTypes_init upper block_types =
     \<lparr>attrs =
        (fold (\<lambda>block a. a(replace_char (CHR ''-'') (CHR ''_'') (upper (name block)) \<mapsto> id' block))
           block_types Map.empty)(''_blocks'' := None),
      u_blocks = fold (\<lambda>block m. m(id' block \<mapsto> block)) block_types Map.empty\<rparr>"

text \<open>Reading one of the attributes \<open>GRASS\<close>, \<open>WATER_STILL\<close>, \<open>STONE_BRICKS\<close>: an attribute
  that was never set raises \<open>AttributeError\<close>.\<close>

definition getattr :: "BlockTypes \<Rightarrow> string \<Rightarrow> error + int" where
  "getattr block_types n =
     (case attrs block_types n of None \<Rightarrow> Inl (AttributeError n) | Some v \<Rightarrow> Inr v)"

text \<open>\<open>str.upper\<close> on strings of ASCII characters, for the worked examples.\<close>

definition ascii_upper :: "string \<Rightarrow> string" where
  "ascii_upper s =
     map (\<lambda>c. if 97 \<le> (of_char c :: nat) \<and> (of_char c :: nat) \<le> 122
               then char_of ((of_char c :: nat) - 32) else c) s"

subsection \<open>Bounds\<close>

record MapBounds =
  min_x :: int
  max_x :: int
  min_z :: int
  max_z :: int

definition center :: "MapBounds \<Rightarrow> int \<times> int" where
  "center bounds = ((min_x bounds + max_x bounds) div 2, (min_z bounds + max_z bounds) div 2)"

text \<open>The list comprehension \<open>[Coordinates.from_string(s) for s in keys]\<close>.\<close>

fun from_strings :: "string list \<Rightarrow> error + Coordinates list" where
  "from_strings [] = Inr []"
| "from_strings (s # ss) =
     (case from_string s of Inl e \<Rightarrow> Inl e
      | Inr c \<Rightarrow> (case from_strings ss of Inl e \<Rightarrow> Inl e | Inr cs \<Rightarrow> Inr (c # cs)))"

definition get_map_bounds :: "(string \<times> int) list \<Rightarrow> error + MapBounds" where
  "get_map_bounds blks =
     (case from_strings (map fst blks) of Inl e \<Rightarrow> Inl e
      | Inr coords \<Rightarrow>
     (case min_seq (map x coords) of Inl e \<Rightarrow> Inl e | Inr lo_x \<Rightarrow>
     (case max_seq (map x coords) of Inl e \<Rightarrow> Inl e | Inr hi_x \<Rightarrow>
     (case min_seq (map z coords) of Inl e \<Rightarrow> Inl e | Inr lo_z \<Rightarrow>
     (case max_seq (map z coords) of Inl e \<Rightarrow> Inl e | Inr hi_z \<Rightarrow>
        Inr \<lparr>min_x = lo_x, max_x = hi_x, min_z = lo_z, max_z = hi_z\<rparr>)))))"

subsection \<open>The three steps of the transformation\<close>

definition create_flat_surface :: "MapBounds \<Rightarrow> BlockTypes \<Rightarrow> error + (string \<times> int) list" where
  "create_flat_surface bounds block_types =
     for_loop (\<lambda>i surface_blocks.
        for_loop (\<lambda>j surface_blocks.
           (case getattr block_types ''GRASS'' of Inl e \<Rightarrow> Inl e
            | Inr g \<Rightarrow>
                Inr (setitem surface_blocks (to_string \<lparr>x = i, y = TARGET_HEIGHT, z = j\<rparr>) g)))
          (range_int (min_z bounds) (max_z bounds + 1)) surface_blocks)
       (range_int (min_x bounds) (max_x bounds + 1)) []"

definition add_center_marker ::
  "(string \<times> int) list \<Rightarrow> int \<times> int \<Rightarrow> BlockTypes \<Rightarrow> error + (string \<times> int) list" where
  "add_center_marker blks cen block_types =
     for_loop (\<lambda>height blks.
        (case getattr block_types ''STONE_BRICKS'' of Inl e \<Rightarrow> Inl e
         | Inr s \<Rightarrow>
             Inr (setitem blks
                    (to_string \<lparr>x = fst cen, y = TARGET_HEIGHT + height, z = snd cen\<rparr>) s)))
       (range_int 1 (CENTER_MARKER_HEIGHT + 1)) blks"

definition process_existing_blocks ::
  "(string \<times> int) list \<Rightarrow> BlockTypes \<Rightarrow> error + (string \<times> int) list" where
  "process_existing_blocks blks block_types =
     for_loop (\<lambda>item processed_blocks.
        (case from_string (fst item) of Inl e \<Rightarrow> Inl e
         | Inr coord \<Rightarrow>
        (case getattr block_types ''WATER_STILL'' of Inl e \<Rightarrow> Inl e
         | Inr w \<Rightarrow>
             if snd item = w then
               (if y coord \<le> TARGET_HEIGHT
                then Inr (setitem processed_blocks (fst item) (snd item))
                else Inr processed_blocks)
             else if y coord < TARGET_HEIGHT
                then Inr (setitem processed_blocks (fst item) (snd item))
                else Inr processed_blocks)))
       blks []"

subsection \<open>The whole transformation\<close>

text \<open>\<open>main\<close> between loading the document and saving it: the result is the document that
  the script writes, or the exception that ends the run before anything is written.\<close>

definition main :: "(string \<Rightarrow> string) \<Rightarrow> MapData \<Rightarrow> error + MapData" where
  "main upper map_data =
     (let block_types = BlockTypes_init upper (blockTypes map_data) in
      case get_map_bounds (blocks map_data) of Inl e \<Rightarrow> Inl e
      | Inr bounds \<Rightarrow>
     (case create_flat_surface bounds block_types of Inl e \<Rightarrow> Inl e
      | Inr new_blocks \<Rightarrow>
     (case process_existing_blocks (blocks map_data) block_types of Inl e \<Rightarrow> Inl e
      | Inr underground_blocks \<Rightarrow>
     (case add_center_marker (update_dict new_blocks underground_blocks) (center bounds) block_types
      of Inl e \<Rightarrow> Inl e
      | Inr marked \<Rightarrow> Inr (map_data\<lparr>blocks := marked\<rparr>)))))"

subsection \<open>Vocabulary of the properties\<close>

text \<open>The keys that the marker loop writes, the keys that the surface loop writes, the test
  that the retention filter applies to one block, the blocks that pass it, and the mapping
  that a successful run leaves: the marker over the retained blocks over the surface.\<close>

definition marker_keys :: "int \<times> int \<Rightarrow> string set" where
  "marker_keys cen =
     (\<lambda>h. to_string \<lparr>x = fst cen, y = TARGET_HEIGHT + h, z = snd cen\<rparr>) ` {1..CENTER_MARKER_HEIGHT}"

definition surface_keys :: "MapBounds \<Rightarrow> string set" where
  "surface_keys bounds =
     (\<lambda>p. to_string \<lparr>x = fst p, y = TARGET_HEIGHT, z = snd p\<rparr>) `
       ({min_x bounds..max_x bounds} \<times> {min_z bounds..max_z bounds})"

definition keeps :: "int \<Rightarrow> Coordinates \<Rightarrow> int \<Rightarrow> bool" where
  "keeps w coord block_id =
     (if block_id = w then y coord \<le> TARGET_HEIGHT else y coord < TARGET_HEIGHT)"

definition retained :: "int \<Rightarrow> (string \<rightharpoonup> int) \<Rightarrow> (string \<rightharpoonup> int)" where
  "retained w m k =
     (case m k of None \<Rightarrow> None
      | Some v \<Rightarrow>
          (case from_string k of Inl e \<Rightarrow> None
           | Inr coord \<Rightarrow> if keeps w coord v then Some v else None))"

definition flattened :: "int \<Rightarrow> int \<Rightarrow> int \<Rightarrow> MapBounds \<Rightarrow> (string \<rightharpoonup> int) \<Rightarrow> (string \<rightharpoonup> int)" where
  "flattened g w s bounds m k =
     (if k \<in> marker_keys (center bounds) then Some s
      else (case retained w m k of Some v \<Rightarrow> Some v
            | None \<Rightarrow> if k \<in> surface_keys bounds then Some g else None))"


text \<open>The strings that \<open>to_string\<close> produces: three fields, each the decimal numeral of an
  integer, with a minus sign for a negative number and no other character, no leading
  zero and no negative zero.\<close>

definition canonical_nat :: "string \<Rightarrow> bool" where
  "canonical_nat ds = (ds \<noteq> [] \<and> list_all is_digit ds \<and> (hd ds = CHR ''0'' \<longrightarrow> ds = ''0''))"

definition canonical_int :: "string \<Rightarrow> bool" where
  "canonical_int f =
     (case f of [] \<Rightarrow> False
      | c # cs \<Rightarrow> if c = CHR ''-'' then canonical_nat cs \<and> cs \<noteq> ''0'' else canonical_nat f)"

definition canonical_key :: "string \<Rightarrow> bool" where
  "canonical_key s =
     (case split_sep (CHR '','') s of
        [f1, f2, f3] \<Rightarrow> canonical_int f1 \<and> canonical_int f2 \<and> canonical_int f3
      | _ \<Rightarrow> False)"

text \<open>A coordinate whose three numbers \<open>str\<close> converts, and a key in whose fields \<open>int\<close>
  finds no more digits than it converts.\<close>

definition coordinate_within_limit :: "Coordinates \<Rightarrow> bool" where
  "coordinate_within_limit c =
     (str_digits (x c) \<le> default_max_str_digits \<and>
      str_digits (y c) \<le> default_max_str_digits \<and>
      str_digits (z c) \<le> default_max_str_digits)"

definition key_within_limit :: "string \<Rightarrow> bool" where
  "key_within_limit s =
     list_all (\<lambda>f. int_digits f \<le> default_max_str_digits) (split_sep (CHR '','') s)"

subsection \<open>Worked examples\<close>

definition example_block_types :: "BlockData list" where
  "example_block_types =
     [\<lparr>id' = 1, name = ''grass'', textureUri = ''blocks/grass'', isLiquid = False\<rparr>,
      \<lparr>id' = 2, name = ''water-still'', textureUri = ''blocks/water-still.png'', isLiquid = True\<rparr>,
      \<lparr>id' = 3, name = ''stone-bricks'', textureUri = ''blocks/stone-bricks.png'', isLiquid = False\<rparr>,
      \<lparr>id' = 4, name = ''lava'', textureUri = ''blocks/lava.png'', isLiquid = True\<rparr>]"

definition example_types :: BlockTypes where
  "example_types = BlockTypes_init ascii_upper example_block_types"

section \<open>Auxiliary facts\<close>

subsection \<open>Integers and coordinates as strings\<close>

lemma is_digit_digit_char: "d < 10 \<Longrightarrow> is_digit (digit_char d)"
  by (simp add: is_digit_def digit_char_def)

lemma digit_val_digit_char: "d < 10 \<Longrightarrow> digit_val (digit_char d) = int d"
  by (simp add: digit_val_def digit_char_def)

lemma digit_char_digit_val: "is_digit c \<Longrightarrow> digit_char (nat (digit_val c)) = c"
  by (simp add: digit_val_def digit_char_def is_digit_def nat_diff_distrib)

lemma str_nat_digits: "\<forall>c \<in> set (str_nat n). is_digit c"
proof (induction n rule: str_nat.induct)
  case (1 n)
  show ?case
  proof (cases "n < 10")
    case True
    then show ?thesis by (simp add: str_nat.simps [of n] is_digit_digit_char)
  next
    case False
    with 1 show ?thesis by (simp add: str_nat.simps [of n] is_digit_digit_char)
  qed
qed

lemma str_nat_not_Nil: "str_nat n \<noteq> []"
  by (simp add: str_nat.simps [of n])

lemma valid_body_digits: "b \<noteq> [] \<Longrightarrow> \<forall>c \<in> set b. is_digit c \<Longrightarrow> valid_body b"
proof (induction b rule: valid_body.induct)
  case 1 then show ?case by simp
next
  case (2 c) then show ?case by simp
next
  case (3 c d cs)
  then show ?case by (auto simp: is_underscore_def is_digit_def)
qed

lemma body_value_snoc:
  "is_digit c \<Longrightarrow> body_value (b @ [c]) = 10 * body_value b + digit_val c"
  by (simp add: body_value_def)

lemma body_value_str_nat: "body_value (str_nat n) = int n"
proof (induction n rule: str_nat.induct)
  case (1 n)
  show ?case
  proof (cases "n < 10")
    case True
    then show ?thesis
      by (simp add: str_nat.simps [of n] body_value_def is_digit_digit_char digit_val_digit_char)
  next
    case False
    with 1 have "body_value (str_nat (n div 10)) = int (n div 10)" by simp
    moreover have "int n = 10 * int (n div 10) + int (n mod 10)"
      by presburger
    ultimately show ?thesis using False
      by (simp add: str_nat.simps [of n] body_value_snoc is_digit_digit_char digit_val_digit_char)
  qed
qed

lemma digit_not_space: "is_digit c \<Longrightarrow> \<not> is_space c"
  by (auto simp: is_digit_def is_space_def)

lemma digit_not_sign: "is_digit c \<Longrightarrow> c \<noteq> CHR ''+'' \<and> c \<noteq> CHR ''-'' \<and> c \<noteq> CHR '',''"
  by (auto simp: is_digit_def)

lemma int_str_digits:
  assumes "b \<noteq> []" and "\<forall>c \<in> set b. is_digit c"
  shows "int_str b = Inr (body_value b)" and "int_str (CHR ''-'' # b) = Inr (- body_value b)"
proof -
  obtain c cs where b: "b = c # cs" using assms(1) by (cases b) auto
  have c: "is_digit c" using assms(2) b by simp
  have tw: "takeWhile (\<lambda>c. is_digit c \<or> is_underscore c) b = b"
    using assms(2) by (simp add: takeWhile_eq_all_conv)
  have dw: "dropWhile (\<lambda>c. is_digit c \<or> is_underscore c) b = []"
    using assms(2) by simp
  have vb: "valid_body b" using assms by (rule valid_body_digits)
  have dsp: "dropWhile is_space b = b"
    using c b by (simp add: digit_not_space)
  have neg: "(case b of [] \<Rightarrow> False | c # _ \<Rightarrow> c = CHR ''-'') = False"
    using digit_not_sign [OF c] by (simp add: b)
  have u: "(case b of [] \<Rightarrow> [] | c # cs \<Rightarrow> if c = CHR ''+'' \<or> c = CHR ''-'' then cs else b) = b"
    using digit_not_sign [OF c] by (simp add: b)
  show "int_str b = Inr (body_value b)"
    unfolding int_str_def dsp neg u Let_def tw dw using vb by simp
  have sp: "dropWhile is_space (CHR ''-'' # b) = CHR ''-'' # b" by (simp add: is_space_def)
  show "int_str (CHR ''-'' # b) = Inr (- body_value b)"
    unfolding int_str_def sp Let_def list.case using vb by (simp add: tw dw)
qed

lemma int_str_str_int: "int_str (str_int i) = Inr i"
  using int_str_digits [OF str_nat_not_Nil str_nat_digits]
  by (simp add: str_int_def body_value_str_nat)

lemma comma_notin_str_int: "CHR '','' \<notin> set (str_int i)"
  using str_nat_digits digit_not_sign by (auto simp: str_int_def)

lemma split_sep_not_Nil: "split_sep sep s \<noteq> []"
  by (induction s) (auto split: list.splits)

lemma split_sep_no_sep: "sep \<notin> set a \<Longrightarrow> split_sep sep a = [a]"
  by (induction a) auto

lemma split_sep_append: "sep \<notin> set a \<Longrightarrow> split_sep sep (a @ sep # r) = a # split_sep sep r"
  by (induction a) auto

lemma from_string_to_string: "from_string (to_string c) = Inr c"
  by (simp add: from_string_def to_string_def split_sep_append split_sep_no_sep
      comma_notin_str_int int_str_str_int)

text \<open>The canonical strings are exactly those that parsing and printing reproduce.\<close>

lemma digit_char_0: "digit_char 0 = CHR ''0''"
  by code_simp

lemma digit_char_eq_0: "d < 10 \<Longrightarrow> digit_char d = CHR ''0'' \<Longrightarrow> d = 0"
proof -
  assume d: "d < 10" and eq: "digit_char d = CHR ''0''"
  have "digit_val (digit_char d) = digit_val (CHR ''0'')" using eq by simp
  then show "d = 0" using d by (simp add: digit_val_digit_char) (simp add: digit_val_def)
qed

lemma hd_str_nat: "hd (str_nat n) = CHR ''0'' \<Longrightarrow> n = 0"
proof (induction n rule: str_nat.induct)
  case (1 n)
  show ?case
  proof (cases "n < 10")
    case True
    with "1.prems" show ?thesis
      by (simp add: str_nat.simps [of n] digit_char_eq_0)
  next
    case False
    then have "hd (str_nat n) = hd (str_nat (n div 10))"
      by (simp add: str_nat.simps [of n] str_nat_not_Nil)
    with "1.prems" have "n div 10 = 0" using "1.IH" False by simp
    with False show ?thesis by simp
  qed
qed

lemma str_nat_0: "str_nat 0 = ''0''"
  by (simp add: str_nat.simps [of 0] digit_char_0)

lemma canonical_nat_str_nat: "canonical_nat (str_nat n)"
  using str_nat_digits [of n] hd_str_nat [of n]
  by (auto simp: canonical_nat_def str_nat_not_Nil list_all_iff str_nat_0)

lemma str_nat_eq_0: "str_nat n = ''0'' \<Longrightarrow> n = 0"
  using hd_str_nat [of n] by simp

lemma canonical_int_str_int: "canonical_int (str_int i)"
proof (cases "i < 0")
  case True
  then have "str_nat (nat (- i)) \<noteq> ''0''" using str_nat_eq_0 [of "nat (- i)"] by auto
  with True show ?thesis by (simp add: canonical_int_def str_int_def canonical_nat_str_nat)
next
  case False
  obtain c cs where s: "str_nat (nat i) = c # cs"
    using str_nat_not_Nil [of "nat i"] by (cases "str_nat (nat i)") auto
  have "is_digit c" using str_nat_digits [of "nat i"] s by simp
  then have "c \<noteq> CHR ''-''" using digit_not_sign by blast
  then show ?thesis
    using False canonical_nat_str_nat [of "nat i"] s
    by (simp add: canonical_int_def str_int_def)
qed

lemma canonical_key_to_string: "canonical_key (to_string c)"
  by (simp add: canonical_key_def to_string_def split_sep_append split_sep_no_sep
      comma_notin_str_int canonical_int_str_int)

text \<open>Digits without a leading zero are the numeral of their value.\<close>

lemma str_nat_body_value:
  "ds \<noteq> [] \<Longrightarrow> list_all is_digit ds \<Longrightarrow> hd ds \<noteq> CHR ''0'' \<Longrightarrow>
   1 \<le> body_value ds \<and> str_nat (nat (body_value ds)) = ds"
proof (induction ds rule: rev_induct)
  case Nil
  then show ?case by simp
next
  case (snoc c ds)
  have c: "is_digit c" using snoc.prems(2) by simp
  have cv: "0 \<le> digit_val c" "digit_val c < 10"
    using c by (simp_all add: digit_val_def is_digit_def)
  show ?case
  proof (cases "ds = []")
    case True
    have "c \<noteq> CHR ''0''" using snoc.prems(3) True by simp
    then have "digit_val c \<noteq> 0"
      using digit_char_digit_val [OF c] by (auto simp: digit_char_0)
    then have pos: "1 \<le> digit_val c" using cv by simp
    have "nat (digit_val c) < 10" using cv by simp
    then have "str_nat (nat (digit_val c)) = [c]"
      by (simp add: str_nat.simps [of "nat (digit_val c)"] digit_char_digit_val [OF c])
    with pos show ?thesis by (simp add: True body_value_def c)
  next
    case False
    then have hd: "hd ds \<noteq> CHR ''0''" using snoc.prems(3) by simp
    have dig: "list_all is_digit ds" using snoc.prems(2) by simp
    from snoc.IH [OF False dig hd] have ih: "1 \<le> body_value ds" "str_nat (nat (body_value ds)) = ds"
      by simp_all
    have bv: "body_value (ds @ [c]) = 10 * body_value ds + digit_val c"
      by (rule body_value_snoc [OF c])
    define m where "m = nat (body_value ds)"
    define d where "d = nat (digit_val c)"
    have n: "nat (body_value (ds @ [c])) = 10 * m + d"
      using ih(1) cv by (simp add: bv m_def d_def nat_add_distrib nat_mult_distrib)
    have d: "d < 10" using cv by (simp add: d_def)
    have m: "1 \<le> m" using ih(1) by (simp add: m_def)
    have "str_nat (10 * m + d) = str_nat m @ [digit_char d]"
      using d m by (simp add: str_nat.simps [of "10 * m + d"])
    also have "\<dots> = ds @ [c]"
      using ih(2) digit_char_digit_val [OF c] by (simp add: m_def d_def)
    finally have "str_nat (nat (body_value (ds @ [c]))) = ds @ [c]" by (simp add: n)
    moreover have "1 \<le> body_value (ds @ [c])" using ih(1) cv by (simp add: bv)
    ultimately show ?thesis by simp
  qed
qed

lemma body_value_0: "body_value ''0'' = 0"
  by (simp add: body_value_def is_digit_def digit_val_def)

lemma canonical_int_round_trip:
  assumes "canonical_int f"
  shows "\<exists>i. int_str f = Inr i \<and> str_int i = f"
proof -
  have nat_case: "int_str ds = Inr (body_value ds) \<and> str_int (body_value ds) = ds \<and>
                  (ds \<noteq> ''0'' \<longrightarrow> 1 \<le> body_value ds)"
    if "canonical_nat ds" for ds
  proof -
    have ne: "ds \<noteq> []" and dig: "list_all is_digit ds" using that by (simp_all add: canonical_nat_def)
    have p: "int_str ds = Inr (body_value ds)"
      using int_str_digits(1) [OF ne] dig by (simp add: list_all_iff)
    show ?thesis
    proof (cases "ds = ''0''")
      case True
      then show ?thesis using p by (simp add: body_value_0 str_int_def str_nat_0)
    next
      case False
      then have "hd ds \<noteq> CHR ''0''" using that by (auto simp: canonical_nat_def)
      from str_nat_body_value [OF ne dig this] p show ?thesis
        by (simp add: str_int_def)
    qed
  qed
  obtain c cs where f: "f = c # cs" using assms by (cases f) (auto simp: canonical_int_def)
  show ?thesis
  proof (cases "c = CHR ''-''")
    case True
    then have cn: "canonical_nat cs" and nz: "cs \<noteq> ''0''"
      using assms f by (simp_all add: canonical_int_def)
    have ne: "cs \<noteq> []" and dig: "\<forall>c \<in> set cs. is_digit c"
      using cn by (simp_all add: canonical_nat_def list_all_iff)
    have "int_str f = Inr (- body_value cs)"
      using int_str_digits(2) [OF ne dig] by (simp add: f True)
    moreover have "str_int (- body_value cs) = f"
    proof -
      from nat_case [OF cn] nz have pos: "1 \<le> body_value cs"
        and st: "str_int (body_value cs) = cs" by simp_all
      from pos st have "str_nat (nat (body_value cs)) = cs" by (simp add: str_int_def)
      with pos show ?thesis by (simp add: str_int_def f True)
    qed
    ultimately show ?thesis by blast
  next
    case False
    then have "canonical_nat f" using assms f by (simp add: canonical_int_def)
    from nat_case [OF this] show ?thesis by blast
  qed
qed

lemma split_sep_Cons:
  "split_sep sep s = f # fs \<Longrightarrow>
   (fs = [] \<and> s = f) \<or> (\<exists>r. s = f @ sep # r \<and> split_sep sep r = fs)"
proof (induction s arbitrary: f fs)
  case Nil
  then show ?case by simp
next
  case (Cons c cs)
  show ?case
  proof (cases "c = sep")
    case True
    with Cons.prems show ?thesis by auto
  next
    case False
    obtain g gs where g: "split_sep sep cs = g # gs"
      using split_sep_not_Nil [of sep cs] by (cases "split_sep sep cs") auto
    from Cons.prems False g have f: "f = c # g" and fs: "fs = gs" by simp_all
    from Cons.IH [OF g] show ?thesis using f fs by auto
  qed
qed

lemma split_sep_three:
  assumes "split_sep sep s = [f1, f2, f3]"
  shows "s = f1 @ sep # f2 @ sep # f3"
proof -
  from split_sep_Cons [OF assms] obtain r1 where
    r1: "s = f1 @ sep # r1" "split_sep sep r1 = [f2, f3]" by auto
  from split_sep_Cons [OF r1(2)] obtain r2 where
    r2: "r1 = f2 @ sep # r2" "split_sep sep r2 = [f3]" by auto
  from split_sep_Cons [OF r2(2)] have "r2 = f3"
    using split_sep_not_Nil [of sep] by auto
  with r1 r2 show ?thesis by simp
qed

lemma canonical_key_round_trip:
  assumes "canonical_key s"
  shows "\<exists>c. from_string s = Inr c \<and> to_string c = s"
proof -
  obtain f1 f2 f3 where sp: "split_sep (CHR '','') s = [f1, f2, f3]"
    and can: "canonical_int f1" "canonical_int f2" "canonical_int f3"
    using assms by (auto simp: canonical_key_def split: list.splits)
  from canonical_int_round_trip [OF can(1)] obtain i1 where i1: "int_str f1 = Inr i1" "str_int i1 = f1" by blast
  from canonical_int_round_trip [OF can(2)] obtain i2 where i2: "int_str f2 = Inr i2" "str_int i2 = f2" by blast
  from canonical_int_round_trip [OF can(3)] obtain i3 where i3: "int_str f3 = Inr i3" "str_int i3 = f3" by blast
  have "from_string s = Inr \<lparr>x = i1, y = i2, z = i3\<rparr>"
    by (simp add: from_string_def sp i1 i2 i3)
  moreover have "to_string \<lparr>x = i1, y = i2, z = i3\<rparr> = s"
    using split_sep_three [OF sp] by (simp add: to_string_def i1 i2 i3)
  ultimately show ?thesis by blast
qed

subsection \<open>Facts about dictionaries\<close>

lemma map_of_setitem: "map_of (setitem d k v) = (map_of d)(k \<mapsto> v)"
  by (induction d) (auto simp: fun_eq_iff)

lemma keys_setitem: "fst ` set (setitem d k v) = insert k (fst ` set d)"
  by (induction d) auto

lemma distinct_setitem: "distinct (map fst d) \<Longrightarrow> distinct (map fst (setitem d k v))"
proof (induction d)
  case Nil
  then show ?case by simp
next
  case (Cons p d)
  have "fst ` set (setitem d k v) = insert k (fst ` set d)" by (rule keys_setitem)
  with Cons show ?case by auto
qed

lemma distinct_update_dict:
  "distinct (map fst d) \<Longrightarrow> distinct (map fst (update_dict d other))"
  unfolding update_dict_def
  by (induction other arbitrary: d) (simp_all add: distinct_setitem)

lemma map_of_update_dict:
  "distinct (map fst other) \<Longrightarrow>
   map_of (update_dict d other) k =
     (case map_of other k of Some v \<Rightarrow> Some v | None \<Rightarrow> map_of d k)"
  unfolding update_dict_def
proof (induction other arbitrary: d)
  case Nil
  then show ?case by simp
next
  case (Cons p ps)
  have notin: "map_of ps (fst p) = None"
    using Cons.prems by (simp add: map_of_eq_None_iff)
  show ?case
    using Cons.IH [of "setitem d (fst p) (snd p)"] Cons.prems notin
    by (cases p) (auto simp: map_of_setitem split: option.splits)
qed

subsection \<open>Loops that cannot fail\<close>

lemma for_loop_total:
  "(\<And>a s. a \<in> set as \<Longrightarrow> body a s = Inr (f a s)) \<Longrightarrow> for_loop body as s = Inr (fold f as s)"
  by (induction as arbitrary: s) simp_all

lemma for_loop_fails:
  "as \<noteq> [] \<Longrightarrow> (\<And>a s. body a s = Inl e) \<Longrightarrow> for_loop body as s = Inl e"
  by (cases as) simp_all

lemma set_range_int: "set (range_int a b) = {a..b - 1}"
  by (simp add: range_int_def)

lemma range_int_Nil: "range_int a b = [] \<longleftrightarrow> b \<le> a"
  by (auto simp: range_int_def)

lemma map_of_fold_setitem:
  "map_of (fold (\<lambda>a d. setitem d (kf a) v) as d0) k =
     (if k \<in> kf ` set as then Some v else map_of d0 k)"
  by (induction as arbitrary: d0) (auto simp: map_of_setitem)

lemma distinct_fold_setitem:
  "distinct (map fst d0) \<Longrightarrow> distinct (map fst (fold (\<lambda>a d. setitem d (kf a) v) as d0))"
  by (induction as arbitrary: d0) (simp_all add: distinct_setitem)

lemma map_of_fold_fold_setitem:
  "map_of (fold (\<lambda>i d. fold (\<lambda>j d. setitem d (kf i j) v) bs d) as d0) k =
     (if \<exists>i \<in> set as. k \<in> kf i ` set bs then Some v else map_of d0 k)"
  by (induction as arbitrary: d0) (auto simp: map_of_fold_setitem)

lemma distinct_fold_fold_setitem:
  "distinct (map fst d0) \<Longrightarrow>
   distinct (map fst (fold (\<lambda>i d. fold (\<lambda>j d. setitem d (kf i j) v) bs d) as d0))"
  by (induction as arbitrary: d0) (simp_all add: distinct_fold_setitem)

subsection \<open>The surface\<close>

lemma create_flat_surface_eq:
  assumes "getattr bt ''GRASS'' = Inr g"
  shows "create_flat_surface b bt =
     Inr (fold (\<lambda>i d. fold (\<lambda>j d. setitem d (to_string \<lparr>x = i, y = TARGET_HEIGHT, z = j\<rparr>) g)
                   (range_int (min_z b) (max_z b + 1)) d)
            (range_int (min_x b) (max_x b + 1)) [])"
  unfolding create_flat_surface_def
  by (rule for_loop_total, rule for_loop_total) (simp add: assms)

lemma surface_keys_alt:
  "k \<in> surface_keys b \<longleftrightarrow>
   (\<exists>i \<in> set (range_int (min_x b) (max_x b + 1)).
      k \<in> (\<lambda>j. to_string \<lparr>x = i, y = TARGET_HEIGHT, z = j\<rparr>) ` set (range_int (min_z b) (max_z b + 1)))"
proof -
  have "k \<in> surface_keys b \<longleftrightarrow>
        (\<exists>i j. min_x b \<le> i \<and> i \<le> max_x b \<and> min_z b \<le> j \<and> j \<le> max_z b \<and>
               k = to_string \<lparr>x = i, y = TARGET_HEIGHT, z = j\<rparr>)"
    unfolding surface_keys_def image_iff by (simp add: Bex_def)
  also have "\<dots> \<longleftrightarrow> (\<exists>i \<in> set (range_int (min_x b) (max_x b + 1)).
      k \<in> (\<lambda>j. to_string \<lparr>x = i, y = TARGET_HEIGHT, z = j\<rparr>) ` set (range_int (min_z b) (max_z b + 1)))"
    unfolding set_range_int image_iff by (simp add: Bex_def)
  finally show ?thesis .
qed

lemma create_flat_surface_map:
  assumes "getattr bt ''GRASS'' = Inr g"
  shows "\<exists>d. create_flat_surface b bt = Inr d \<and> distinct (map fst d) \<and>
    (\<forall>k. map_of d k = (if k \<in> surface_keys b then Some g else None))"
proof (intro exI conjI allI)
  let ?d = "fold (\<lambda>i d. fold (\<lambda>j d. setitem d (to_string \<lparr>x = i, y = TARGET_HEIGHT, z = j\<rparr>) g)
                   (range_int (min_z b) (max_z b + 1)) d)
            (range_int (min_x b) (max_x b + 1)) []"
  show "create_flat_surface b bt = Inr ?d" by (rule create_flat_surface_eq [OF assms])
  show "distinct (map fst ?d)" by (rule distinct_fold_fold_setitem) simp
  show "map_of ?d k = (if k \<in> surface_keys b then Some g else None)" for k
    unfolding surface_keys_alt by (simp add: map_of_fold_fold_setitem)
qed

lemma create_flat_surface_fails:
  assumes "getattr bt ''GRASS'' = Inl e" and "min_x b \<le> max_x b" and "min_z b \<le> max_z b"
  shows "create_flat_surface b bt = Inl e"
  unfolding create_flat_surface_def
proof (rule for_loop_fails)
  show "range_int (min_x b) (max_x b + 1) \<noteq> []" using assms(2) by (simp add: range_int_Nil)
  show "for_loop (\<lambda>j surface_blocks.
          case getattr bt ''GRASS'' of Inl e \<Rightarrow> Inl e
          | Inr g \<Rightarrow> Inr (setitem surface_blocks (to_string \<lparr>x = a, y = TARGET_HEIGHT, z = j\<rparr>) g))
        (range_int (min_z b) (max_z b + 1)) s = Inl e" for a s
  proof (rule for_loop_fails)
    show "range_int (min_z b) (max_z b + 1) \<noteq> []" using assms(3) by (simp add: range_int_Nil)
  qed (simp add: assms(1))
qed

subsection \<open>The marker\<close>

lemma marker_keys_alt:
  "marker_keys cen =
   (\<lambda>h. to_string \<lparr>x = fst cen, y = TARGET_HEIGHT + h, z = snd cen\<rparr>) `
      set (range_int 1 (CENTER_MARKER_HEIGHT + 1))"
  by (simp add: marker_keys_def set_range_int)

lemma add_center_marker_map:
  assumes "getattr bt ''STONE_BRICKS'' = Inr s"
  shows "\<exists>d'. add_center_marker d cen bt = Inr d' \<and>
    (distinct (map fst d) \<longrightarrow> distinct (map fst d')) \<and>
    (\<forall>k. map_of d' k = (if k \<in> marker_keys cen then Some s else map_of d k))"
proof (intro exI conjI allI impI)
  let ?d = "fold (\<lambda>h d. setitem d (to_string \<lparr>x = fst cen, y = TARGET_HEIGHT + h, z = snd cen\<rparr>) s)
              (range_int 1 (CENTER_MARKER_HEIGHT + 1)) d"
  show "add_center_marker d cen bt = Inr ?d"
    unfolding add_center_marker_def by (rule for_loop_total) (simp add: assms)
  show "distinct (map fst d) \<Longrightarrow> distinct (map fst ?d)" by (rule distinct_fold_setitem)
  show "map_of ?d k = (if k \<in> marker_keys cen then Some s else map_of d k)" for k
    unfolding marker_keys_alt by (simp add: map_of_fold_setitem)
qed

lemma add_center_marker_fails:
  assumes "getattr bt ''STONE_BRICKS'' = Inl e"
  shows "add_center_marker d cen bt = Inl e"
  unfolding add_center_marker_def
  by (rule for_loop_fails) (simp_all add: assms range_int_Nil CENTER_MARKER_HEIGHT_def)

subsection \<open>The retention filter\<close>

lemma filter_loop:
  assumes step: "\<And>k v d c. from_string k = Inr c \<Longrightarrow>
                    body (k, v) d = Inr (if keeps w c v then setitem d k v else d)"
    and "\<forall>k \<in> fst ` set blks. \<exists>c. from_string k = Inr c"
    and "distinct (map fst blks)"
  shows "\<exists>d. for_loop body blks d0 = Inr d \<and> (distinct (map fst d0) \<longrightarrow> distinct (map fst d)) \<and>
       (\<forall>k. map_of d k = (case retained w (map_of blks) k of Some v \<Rightarrow> Some v | None \<Rightarrow> map_of d0 k))"
  using assms(2,3)
proof (induction blks arbitrary: d0)
  case Nil
  then show ?case by (simp add: retained_def)
next
  case (Cons p ps)
  obtain k v where p: "p = (k, v)" by (cases p)
  obtain c where c: "from_string k = Inr c" using Cons.prems(1) p by auto
  have notin: "map_of ps k = None" using Cons.prems(2) p by (simp add: map_of_eq_None_iff)
  have ps: "\<forall>k \<in> fst ` set ps. \<exists>c. from_string k = Inr c" "distinct (map fst ps)"
    using Cons.prems by auto
  define d1 where "d1 = (if keeps w c v then setitem d0 k v else d0)"
  from Cons.IH [OF ps, of d1] obtain d where d:
    "for_loop body ps d1 = Inr d"
    "distinct (map fst d1) \<longrightarrow> distinct (map fst d)"
    "\<forall>k. map_of d k = (case retained w (map_of ps) k of Some v \<Rightarrow> Some v | None \<Rightarrow> map_of d1 k)"
    by blast
  have loop: "for_loop body (p # ps) d0 = Inr d"
    using d(1) step [OF c, of v d0] by (simp add: p d1_def)
  have dist: "distinct (map fst d0) \<longrightarrow> distinct (map fst d)"
    using d(2) by (simp add: d1_def distinct_setitem)
  have maps: "map_of d k' = (case retained w (map_of (p # ps)) k' of Some v \<Rightarrow> Some v | None \<Rightarrow> map_of d0 k')" for k'
  proof (cases "k' = k")
    case True
    have "retained w (map_of ps) k = None" by (simp add: retained_def notin)
    then have "map_of d k = map_of d1 k" using d(3) by simp
    then show ?thesis
      by (simp add: True p retained_def c d1_def map_of_setitem)
  next
    case False
    have "retained w (map_of (p # ps)) k' = retained w (map_of ps) k'"
      using False by (simp add: retained_def p)
    moreover have "map_of d1 k' = map_of d0 k'"
      using False by (simp add: d1_def map_of_setitem)
    ultimately show ?thesis using d(3) by (simp split: option.splits)
  qed
  from loop dist maps show ?case by blast
qed

lemma process_existing_blocks_map:
  assumes "getattr bt ''WATER_STILL'' = Inr w"
    and "\<forall>k \<in> fst ` set blks. \<exists>c. from_string k = Inr c"
    and "distinct (map fst blks)"
  shows "\<exists>d. process_existing_blocks blks bt = Inr d \<and> distinct (map fst d) \<and>
    (\<forall>k. map_of d k = retained w (map_of blks) k)"
proof -
  have "\<exists>d. process_existing_blocks blks bt = Inr d \<and>
          (distinct (map fst ([] :: (string \<times> int) list)) \<longrightarrow> distinct (map fst d)) \<and>
          (\<forall>k. map_of d k = (case retained w (map_of blks) k of Some v \<Rightarrow> Some v | None \<Rightarrow> map_of [] k))"
    unfolding process_existing_blocks_def
    by (rule filter_loop [OF _ assms(2,3)]) (simp add: assms(1) keeps_def)
  then obtain d where d: "process_existing_blocks blks bt = Inr d" "distinct (map fst d)"
    and m: "\<forall>k. map_of d k = (case retained w (map_of blks) k of Some v \<Rightarrow> Some v | None \<Rightarrow> map_of [] k)"
    by auto
  have "map_of d k = retained w (map_of blks) k" for k
    using m [rule_format, of k] by (cases "retained w (map_of blks) k") simp_all
  with d show ?thesis by blast
qed

lemma process_existing_blocks_fails:
  assumes "getattr bt ''WATER_STILL'' = Inl e" and "blks \<noteq> []"
    and "\<forall>k \<in> fst ` set blks. \<exists>c. from_string k = Inr c"
  shows "process_existing_blocks blks bt = Inl e"
proof -
  obtain p ps where blks: "blks = p # ps" using assms(2) by (cases blks) auto
  obtain c where "from_string (fst p) = Inr c" using assms(3) blks by auto
  then show ?thesis
    by (simp add: process_existing_blocks_def blks assms(1))
qed

lemma process_existing_blocks_total:
  assumes w: "getattr bt ''WATER_STILL'' = Inr w"
    and parse: "\<forall>k \<in> fst ` set blks. \<exists>c. from_string k = Inr c"
  shows "\<exists>d. process_existing_blocks blks bt = Inr d"
proof -
  define f where "f = (\<lambda>item d. case from_string (fst item) of
      Inl e \<Rightarrow> d
    | Inr c \<Rightarrow> if keeps w c (snd item) then setitem d (fst item) (snd item) else d)"
  have "process_existing_blocks blks bt = Inr (fold f blks [])"
    unfolding process_existing_blocks_def
  proof (rule for_loop_total)
    fix a :: "string \<times> int" and s :: "(string \<times> int) list"
    assume "a \<in> set blks"
    then obtain c where "from_string (fst a) = Inr c" using parse by auto
    then show "(case from_string (fst a) of Inl e \<Rightarrow> Inl e
         | Inr coord \<Rightarrow>
        (case getattr bt ''WATER_STILL'' of Inl e \<Rightarrow> Inl e
         | Inr w \<Rightarrow>
             if snd a = w then
               (if y coord \<le> TARGET_HEIGHT
                then Inr (setitem s (fst a) (snd a))
                else Inr s)
             else if y coord < TARGET_HEIGHT
                then Inr (setitem s (fst a) (snd a))
                else Inr s)) = Inr (f a s)"
      by (simp add: w f_def keeps_def)
  qed
  then show ?thesis by blast
qed

subsection \<open>Bounds\<close>

lemma from_strings_set:
  "from_strings ks = Inr cs \<Longrightarrow> set cs = {c. \<exists>k \<in> set ks. from_string k = Inr c}"
proof (induction ks arbitrary: cs)
  case Nil
  then show ?case by simp
next
  case (Cons k ks)
  then obtain c cs' where c: "from_string k = Inr c" and cs': "from_strings ks = Inr cs'"
    and cs: "cs = c # cs'"
    by (auto split: sum.splits)
  have "set cs' = {c. \<exists>k \<in> set ks. from_string k = Inr c}" by (rule Cons.IH [OF cs'])
  then show ?case using c cs by auto
qed

lemma from_strings_length: "from_strings ks = Inr cs \<Longrightarrow> length cs = length ks"
  by (induction ks arbitrary: cs) (auto split: sum.splits)

lemma from_strings_parses:
  "from_strings ks = Inr cs \<Longrightarrow> \<forall>k \<in> set ks. \<exists>c. from_string k = Inr c"
  by (induction ks arbitrary: cs) (auto split: sum.splits)

lemma from_strings_total:
  "\<forall>k \<in> set ks. \<exists>c. from_string k = Inr c \<Longrightarrow> \<exists>cs. from_strings ks = Inr cs"
  by (induction ks) auto

lemma min_seq_Min: "vs \<noteq> [] \<Longrightarrow> min_seq vs = Inr (Min (set vs))"
proof (cases vs)
  case Nil
  assume "vs \<noteq> []"
  with Nil show ?thesis by simp
next
  case (Cons v r)
  have "fold min r v = Min (set (v # r))" by (rule Min.set_eq_fold [symmetric])
  then show ?thesis by (simp add: min_seq_def Cons)
qed

lemma max_seq_Max: "vs \<noteq> [] \<Longrightarrow> max_seq vs = Inr (Max (set vs))"
proof (cases vs)
  case Nil
  assume "vs \<noteq> []"
  with Nil show ?thesis by simp
next
  case (Cons v r)
  have "fold max r v = Max (set (v # r))" by (rule Max.set_eq_fold [symmetric])
  then show ?thesis by (simp add: max_seq_def Cons)
qed

lemma get_map_bounds_coords:
  assumes "from_strings (map fst blks) = Inr cs" and "cs \<noteq> []"
  shows "get_map_bounds blks =
     Inr \<lparr>min_x = Min (x ` set cs), max_x = Max (x ` set cs),
          min_z = Min (z ` set cs), max_z = Max (z ` set cs)\<rparr>"
  using assms by (simp add: get_map_bounds_def min_seq_Min max_seq_Max)

lemma get_map_bounds_Inr:
  assumes "get_map_bounds blks = Inr b"
  obtains cs where "from_strings (map fst blks) = Inr cs" and "cs \<noteq> []"
    and "b = \<lparr>min_x = Min (x ` set cs), max_x = Max (x ` set cs),
              min_z = Min (z ` set cs), max_z = Max (z ` set cs)\<rparr>"
proof -
  obtain cs where cs: "from_strings (map fst blks) = Inr cs"
    using assms by (auto simp: get_map_bounds_def split: sum.splits)
  have ne: "cs \<noteq> []"
  proof
    assume "cs = []"
    then have "get_map_bounds blks = Inl (ValueError min_empty_sequence)"
      using cs by (simp add: get_map_bounds_def min_seq_def)
    with assms show False by simp
  qed
  from get_map_bounds_coords [OF cs ne] assms cs ne show thesis by (intro that) simp_all
qed

text \<open>What a successful bounds computation says about the keys.\<close>

lemma get_map_bounds_keys:
  assumes "get_map_bounds blks = Inr b"
  shows "blks \<noteq> []"
    and "\<forall>k \<in> fst ` set blks. \<exists>c. from_string k = Inr c"
    and "\<And>k c. k \<in> fst ` set blks \<Longrightarrow> from_string k = Inr c \<Longrightarrow>
           min_x b \<le> x c \<and> x c \<le> max_x b \<and> min_z b \<le> z c \<and> z c \<le> max_z b"
    and "min_x b \<le> max_x b" and "min_z b \<le> max_z b"
proof -
  from get_map_bounds_Inr [OF assms] obtain cs where
    cs: "from_strings (map fst blks) = Inr cs" and ne: "cs \<noteq> []"
    and b: "b = \<lparr>min_x = Min (x ` set cs), max_x = Max (x ` set cs),
              min_z = Min (z ` set cs), max_z = Max (z ` set cs)\<rparr>" .
  show "blks \<noteq> []" using from_strings_length [OF cs] ne by auto
  show "\<forall>k \<in> fst ` set blks. \<exists>c. from_string k = Inr c"
    using from_strings_parses [OF cs] by simp
  have mem: "c \<in> set cs" if "k \<in> fst ` set blks" "from_string k = Inr c" for k c
    using that from_strings_set [OF cs] by auto
  show "min_x b \<le> x c \<and> x c \<le> max_x b \<and> min_z b \<le> z c \<and> z c \<le> max_z b"
    if "k \<in> fst ` set blks" "from_string k = Inr c" for k c
    using mem [OF that] by (simp add: b)
  obtain c where "c \<in> set cs" using ne by (cases cs) auto
  then have "Min (x ` set cs) \<le> x c" "x c \<le> Max (x ` set cs)"
            "Min (z ` set cs) \<le> z c" "z c \<le> Max (z ` set cs)"
    by simp_all
  then show "min_x b \<le> max_x b" "min_z b \<le> max_z b" by (simp_all add: b)
qed

text \<open>The bounds are determined by the set of coordinates that the keys denote.\<close>

lemma get_map_bounds_eqI:
  assumes parse: "\<forall>k \<in> fst ` set blks. \<exists>c. from_string k = Inr c"
    and inside: "\<And>k c. k \<in> fst ` set blks \<Longrightarrow> from_string k = Inr c \<Longrightarrow>
           min_x b \<le> x c \<and> x c \<le> max_x b \<and> min_z b \<le> z c \<and> z c \<le> max_z b"
    and lo: "klo \<in> fst ` set blks" "from_string klo = Inr clo" "x clo = min_x b" "z clo = min_z b"
    and hi: "khi \<in> fst ` set blks" "from_string khi = Inr chi" "x chi = max_x b" "z chi = max_z b"
  shows "get_map_bounds blks = Inr b"
proof -
  obtain cs where cs: "from_strings (map fst blks) = Inr cs"
    using from_strings_total [of "map fst blks"] parse by auto
  have set_cs: "set cs = {c. \<exists>k \<in> fst ` set blks. from_string k = Inr c}"
    using from_strings_set [OF cs] by simp
  have clo: "clo \<in> set cs" and chi: "chi \<in> set cs" using lo hi set_cs by auto
  then have ne: "cs \<noteq> []" by auto
  have within: "min_x b \<le> x c \<and> x c \<le> max_x b \<and> min_z b \<le> z c \<and> z c \<le> max_z b"
    if "c \<in> set cs" for c
    using that set_cs inside by auto
  have in_lo: "min_x b \<in> x ` set cs" "min_z b \<in> z ` set cs"
    using clo lo(3,4) by (metis imageI)+
  have in_hi: "max_x b \<in> x ` set cs" "max_z b \<in> z ` set cs"
    using chi hi(3,4) by (metis imageI)+
  have "Min (x ` set cs) = min_x b"
    using within in_lo(1) by (intro Min_eqI) auto
  moreover have "Max (x ` set cs) = max_x b"
    using within in_hi(1) by (intro Max_eqI) auto
  moreover have "Min (z ` set cs) = min_z b"
    using within in_lo(2) by (intro Min_eqI) auto
  moreover have "Max (z ` set cs) = max_z b"
    using within in_hi(2) by (intro Max_eqI) auto
  ultimately show ?thesis
    using get_map_bounds_coords [OF cs ne] by simp
qed

lemma get_map_bounds_Nil: "get_map_bounds [] = Inl (ValueError min_empty_sequence)"
  by (simp add: get_map_bounds_def min_seq_def)

subsection \<open>The keys of the three layers\<close>

lemma surface_keys_parse:
  assumes "k \<in> surface_keys b"
  obtains i j where "k = to_string \<lparr>x = i, y = TARGET_HEIGHT, z = j\<rparr>"
    and "from_string k = Inr \<lparr>x = i, y = TARGET_HEIGHT, z = j\<rparr>"
    and "min_x b \<le> i" "i \<le> max_x b" "min_z b \<le> j" "j \<le> max_z b"
  using assms unfolding surface_keys_def by (auto simp: from_string_to_string)

lemma marker_keys_parse:
  assumes "k \<in> marker_keys cen"
  obtains h where "k = to_string \<lparr>x = fst cen, y = TARGET_HEIGHT + h, z = snd cen\<rparr>"
    and "from_string k = Inr \<lparr>x = fst cen, y = TARGET_HEIGHT + h, z = snd cen\<rparr>"
    and "1 \<le> h" "h \<le> CENTER_MARKER_HEIGHT"
  using assms unfolding marker_keys_def by (auto simp: from_string_to_string)

lemma retained_Some:
  "retained w m k = Some v \<longleftrightarrow> m k = Some v \<and> (\<exists>c. from_string k = Inr c \<and> keeps w c v)"
  by (auto simp: retained_def split: option.splits sum.splits)

lemma surface_keysI:
  "min_x b \<le> i \<Longrightarrow> i \<le> max_x b \<Longrightarrow> min_z b \<le> j \<Longrightarrow> j \<le> max_z b \<Longrightarrow>
   to_string \<lparr>x = i, y = TARGET_HEIGHT, z = j\<rparr> \<in> surface_keys b"
  unfolding surface_keys_def by (rule image_eqI [of _ _ "(i, j)"]) simp_all

lemma marker_keysI:
  "1 \<le> h \<Longrightarrow> h \<le> CENTER_MARKER_HEIGHT \<Longrightarrow>
   to_string \<lparr>x = fst cen, y = TARGET_HEIGHT + h, z = snd cen\<rparr> \<in> marker_keys cen"
  unfolding marker_keys_def by (rule image_eqI [of _ _ h]) simp_all

subsection \<open>The whole transformation\<close>

lemma main_success:
  assumes b: "get_map_bounds (blocks doc) = Inr b"
    and dist: "distinct (map fst (blocks doc))"
    and g: "getattr (BlockTypes_init up (blockTypes doc)) ''GRASS'' = Inr g"
    and w: "getattr (BlockTypes_init up (blockTypes doc)) ''WATER_STILL'' = Inr w"
    and s: "getattr (BlockTypes_init up (blockTypes doc)) ''STONE_BRICKS'' = Inr s"
  shows "\<exists>out. main up doc = Inr (doc\<lparr>blocks := out\<rparr>) \<and> distinct (map fst out) \<and>
    (\<forall>k. map_of out k = flattened g w s b (map_of (blocks doc)) k)"
proof -
  let ?bt = "BlockTypes_init up (blockTypes doc)"
  from create_flat_surface_map [OF g, of b] obtain sf where
    sf: "create_flat_surface b ?bt = Inr sf" "distinct (map fst sf)"
    "\<And>k. map_of sf k = (if k \<in> surface_keys b then Some g else None)" by blast
  from process_existing_blocks_map [OF w get_map_bounds_keys(2) [OF b] dist] obtain ug where
    ug: "process_existing_blocks (blocks doc) ?bt = Inr ug" "distinct (map fst ug)"
    "\<And>k. map_of ug k = retained w (map_of (blocks doc)) k" by blast
  let ?merged = "update_dict sf ug"
  from add_center_marker_map [OF s, of ?merged "center b"] obtain out where
    out: "add_center_marker ?merged (center b) ?bt = Inr out"
    "distinct (map fst ?merged) \<Longrightarrow> distinct (map fst out)"
    "\<And>k. map_of out k = (if k \<in> marker_keys (center b) then Some s else map_of ?merged k)" by blast
  have "main up doc = Inr (doc\<lparr>blocks := out\<rparr>)"
    by (simp add: main_def b sf(1) ug(1) out(1))
  moreover have "distinct (map fst out)"
    by (rule out(2), rule distinct_update_dict, rule sf(2))
  moreover have "map_of out k = flattened g w s b (map_of (blocks doc)) k" for k
    by (simp add: out(3) map_of_update_dict [OF ug(2)] ug(3) sf(3) flattened_def
        split: option.splits)
  ultimately show ?thesis by blast
qed

lemma getattr_cases:
  obtains (missing) "getattr bt n = Inl (AttributeError n)" | (present) v where "getattr bt n = Inr v"
  by (cases "attrs bt n") (auto simp: getattr_def)

lemma main_bounds_error:
  "get_map_bounds (blocks doc) = Inl e \<Longrightarrow> main up doc = Inl e"
  by (simp add: main_def)

lemma main_GRASS_error:
  assumes b: "get_map_bounds (blocks doc) = Inr b"
    and g: "getattr (BlockTypes_init up (blockTypes doc)) ''GRASS'' = Inl e"
  shows "main up doc = Inl e"
  using create_flat_surface_fails [OF g get_map_bounds_keys(4,5) [OF b]]
  by (simp add: main_def b)

lemma main_WATER_STILL_error:
  assumes b: "get_map_bounds (blocks doc) = Inr b"
    and g: "getattr (BlockTypes_init up (blockTypes doc)) ''GRASS'' = Inr g"
    and w: "getattr (BlockTypes_init up (blockTypes doc)) ''WATER_STILL'' = Inl e"
  shows "main up doc = Inl e"
proof -
  from create_flat_surface_map [OF g, of b] obtain sf where
    sf: "create_flat_surface b (BlockTypes_init up (blockTypes doc)) = Inr sf" by blast
  from process_existing_blocks_fails [OF w get_map_bounds_keys(1,2) [OF b]]
  show ?thesis by (simp add: main_def b sf)
qed

lemma main_STONE_BRICKS_error:
  assumes b: "get_map_bounds (blocks doc) = Inr b"
    and g: "getattr (BlockTypes_init up (blockTypes doc)) ''GRASS'' = Inr g"
    and w: "getattr (BlockTypes_init up (blockTypes doc)) ''WATER_STILL'' = Inr w"
    and s: "getattr (BlockTypes_init up (blockTypes doc)) ''STONE_BRICKS'' = Inl e"
  shows "main up doc = Inl e"
proof -
  from create_flat_surface_map [OF g, of b] obtain sf where
    sf: "create_flat_surface b (BlockTypes_init up (blockTypes doc)) = Inr sf" by blast
  from process_existing_blocks_total [OF w get_map_bounds_keys(2) [OF b]] obtain ug where
    ug: "process_existing_blocks (blocks doc) (BlockTypes_init up (blockTypes doc)) = Inr ug"
    by blast
  show ?thesis by (simp add: main_def b sf ug add_center_marker_fails [OF s])
qed

lemma main_Inr:
  assumes "main up doc = Inr doc'"
  obtains b g w s where "get_map_bounds (blocks doc) = Inr b"
    and "getattr (BlockTypes_init up (blockTypes doc)) ''GRASS'' = Inr g"
    and "getattr (BlockTypes_init up (blockTypes doc)) ''WATER_STILL'' = Inr w"
    and "getattr (BlockTypes_init up (blockTypes doc)) ''STONE_BRICKS'' = Inr s"
proof -
  let ?bt = "BlockTypes_init up (blockTypes doc)"
  obtain b where b: "get_map_bounds (blocks doc) = Inr b"
    using assms(1) main_bounds_error [of doc _ up] by (cases "get_map_bounds (blocks doc)") auto
  obtain g where g: "getattr ?bt ''GRASS'' = Inr g"
    using assms(1) main_GRASS_error [OF b, of up] by (cases "getattr ?bt ''GRASS''") auto
  obtain w where w: "getattr ?bt ''WATER_STILL'' = Inr w"
    using assms(1) main_WATER_STILL_error [OF b g]
    by (cases "getattr ?bt ''WATER_STILL''") auto
  obtain s where s: "getattr ?bt ''STONE_BRICKS'' = Inr s"
    using assms(1) main_STONE_BRICKS_error [OF b g w]
    by (cases "getattr ?bt ''STONE_BRICKS''") auto
  from b g w s show thesis by (rule that)
qed

text \<open>A run that succeeds is described by \<open>flattened\<close>.\<close>

lemma main_flattened:
  assumes "main up doc = Inr doc'" and dist: "distinct (map fst (blocks doc))"
  shows "\<exists>b g w s. get_map_bounds (blocks doc) = Inr b \<and>
    getattr (BlockTypes_init up (blockTypes doc)) ''GRASS'' = Inr g \<and>
    getattr (BlockTypes_init up (blockTypes doc)) ''WATER_STILL'' = Inr w \<and>
    getattr (BlockTypes_init up (blockTypes doc)) ''STONE_BRICKS'' = Inr s \<and>
    blockTypes doc' = blockTypes doc \<and>
    distinct (map fst (blocks doc')) \<and>
    (\<forall>k. map_of (blocks doc') k = flattened g w s b (map_of (blocks doc)) k)"
proof -
  from main_Inr [OF assms(1)] obtain b g w s where
    b: "get_map_bounds (blocks doc) = Inr b"
    and g: "getattr (BlockTypes_init up (blockTypes doc)) ''GRASS'' = Inr g"
    and w: "getattr (BlockTypes_init up (blockTypes doc)) ''WATER_STILL'' = Inr w"
    and s: "getattr (BlockTypes_init up (blockTypes doc)) ''STONE_BRICKS'' = Inr s" .
  from main_success [OF b dist g w s] obtain out where
    out: "main up doc = Inr (doc\<lparr>blocks := out\<rparr>)" "distinct (map fst out)"
    "\<forall>k. map_of out k = flattened g w s b (map_of (blocks doc)) k" by blast
  have doc': "doc' = doc\<lparr>blocks := out\<rparr>" using assms(1) out(1) by simp
  have "blockTypes doc' = blockTypes doc" "distinct (map fst (blocks doc'))"
    "\<forall>k. map_of (blocks doc') k = flattened g w s b (map_of (blocks doc)) k"
    using out(2,3) by (simp_all add: doc')
  with b g w s show ?thesis by blast
qed

subsection \<open>The attributes of the block type table\<close>

lemma fold_attrs_None:
  "fold (\<lambda>block a. a(f block \<mapsto> id' block)) bts a0 n = None \<longleftrightarrow>
   a0 n = None \<and> n \<notin> f ` set bts"
  by (induction bts arbitrary: a0) auto

lemma attrs_init_None:
  assumes "n \<noteq> ''_blocks''"
  shows "attrs (BlockTypes_init up bts) n = None \<longleftrightarrow>
     (\<forall>blk \<in> set bts. replace_char (CHR ''-'') (CHR ''_'') (up (name blk)) \<noteq> n)"
  using assms by (auto simp: BlockTypes_init_def fold_attrs_None)

lemma getattr_missing:
  assumes "n \<noteq> ''_blocks''"
    and "\<forall>blk \<in> set bts. replace_char (CHR ''-'') (CHR ''_'') (up (name blk)) \<noteq> n"
  shows "getattr (BlockTypes_init up bts) n = Inl (AttributeError n)"
  using attrs_init_None [OF assms(1), of up bts] assms(2) by (simp add: getattr_def)

lemma getattr_Inl: "getattr bt n = Inl e \<Longrightarrow> e = AttributeError n \<and> attrs bt n = None"
  by (auto simp: getattr_def split: option.splits)

lemma main_fails_without_name:
  assumes "getattr (BlockTypes_init up (blockTypes doc)) ''GRASS'' = Inl e1 \<or>
           getattr (BlockTypes_init up (blockTypes doc)) ''WATER_STILL'' = Inl e2 \<or>
           getattr (BlockTypes_init up (blockTypes doc)) ''STONE_BRICKS'' = Inl e3"
  shows "\<exists>e. main up doc = Inl e"
proof (cases "get_map_bounds (blocks doc)")
  case (Inl e)
  then show ?thesis using main_bounds_error by blast
next
  case (Inr b)
  let ?bt = "BlockTypes_init up (blockTypes doc)"
  show ?thesis
  proof (cases "getattr ?bt ''GRASS''")
    case (Inl e)
    from main_GRASS_error [OF Inr Inl] show ?thesis by blast
  next
    case g: (Inr g)
    show ?thesis
    proof (cases "getattr ?bt ''WATER_STILL''")
      case (Inl e)
      from main_WATER_STILL_error [OF Inr g Inl] show ?thesis by blast
    next
      case w: (Inr w)
      show ?thesis
      proof (cases "getattr ?bt ''STONE_BRICKS''")
        case (Inl e)
        from main_STONE_BRICKS_error [OF Inr g w Inl] show ?thesis by blast
      next
        case s: (Inr s)
        with g w assms show ?thesis by simp
      qed
    qed
  qed
qed

subsection \<open>Facts about the flattened mapping\<close>

lemma flattened_keys_parse:
  assumes b: "get_map_bounds blks = Inr b"
    and k: "flattened g w s b (map_of blks) k = Some v"
  shows "\<exists>c. from_string k = Inr c"
proof (cases "k \<in> marker_keys (center b)")
  case True
  then show ?thesis by (auto elim: marker_keys_parse)
next
  case False
  show ?thesis
  proof (cases "retained w (map_of blks) k")
    case None
    with k False have "k \<in> surface_keys b" by (simp add: flattened_def split: if_splits)
    then show ?thesis by (auto elim: surface_keys_parse)
  next
    case (Some v')
    then show ?thesis by (auto simp: retained_Some)
  qed
qed

lemma flattened_above:
  assumes k: "flattened g w s b m k = Some v" and c: "from_string k = Inr c"
    and above: "TARGET_HEIGHT < y c"
  shows "k \<in> marker_keys (center b) \<and> v = s"
proof (cases "k \<in> marker_keys (center b)")
  case True
  with k show ?thesis by (simp add: flattened_def)
next
  case False
  show ?thesis
  proof (cases "retained w m k")
    case None
    with k False have "k \<in> surface_keys b" by (simp add: flattened_def split: if_splits)
    then have "y c = TARGET_HEIGHT" using c by (auto elim!: surface_keys_parse)
    with above show ?thesis by simp
  next
    case (Some v')
    then have "keeps w c v'" using c by (auto simp: retained_Some)
    then have "y c \<le> TARGET_HEIGHT" by (auto simp: keeps_def split: if_splits)
    with above show ?thesis by simp
  qed
qed

lemma flattened_below:
  assumes m: "m k = Some v" and c: "from_string k = Inr c" and keep: "keeps w c v"
  shows "flattened g w s b m k = Some v"
proof -
  have le: "y c \<le> TARGET_HEIGHT" using keep by (auto simp: keeps_def split: if_splits)
  have "k \<notin> marker_keys (center b)"
  proof
    assume "k \<in> marker_keys (center b)"
    then obtain h where "from_string k = Inr \<lparr>x = fst (center b), y = TARGET_HEIGHT + h, z = snd (center b)\<rparr>"
      and "1 \<le> h" by (auto elim: marker_keys_parse)
    with c le show False by auto
  qed
  moreover have "retained w m k = Some v" using m c keep by (simp add: retained_Some)
  ultimately show ?thesis by (simp add: flattened_def)
qed

lemma in_keys_iff: "k \<in> fst ` set d \<longleftrightarrow> (\<exists>v. map_of d k = Some v)"
  by (metis map_of_eq_None_iff not_None_eq)

subsection \<open>Loops that succeed\<close>

lemma for_loop_Inr_step:
  "for_loop body as s = Inr s' \<Longrightarrow> a \<in> set as \<Longrightarrow> \<exists>s1 s2. body a s1 = Inr s2"
proof (induction as arbitrary: s)
  case Nil
  then show ?case by simp
next
  case (Cons a' as)
  then obtain s1 where s1: "body a' s = Inr s1" and rest: "for_loop body as s1 = Inr s'"
    by (auto split: sum.splits)
  show ?case
  proof (cases "a = a'")
    case True
    with s1 show ?thesis by blast
  next
    case False
    with Cons.prems(2) have "a \<in> set as" by simp
    from Cons.IH [OF rest this] show ?thesis .
  qed
qed

lemma process_existing_blocks_Inr:
  assumes "process_existing_blocks blks bt = Inr r" and "blks \<noteq> []"
  shows "(\<exists>w. getattr bt ''WATER_STILL'' = Inr w) \<and>
         (\<forall>k \<in> fst ` set blks. \<exists>c. from_string k = Inr c)"
proof -
  have step: "(\<exists>w. getattr bt ''WATER_STILL'' = Inr w) \<and> (\<exists>c. from_string (fst a) = Inr c)"
    if a: "a \<in> set blks" for a
  proof (cases "from_string (fst a)")
    case (Inl e)
    with for_loop_Inr_step [OF assms(1) [unfolded process_existing_blocks_def] a]
    show ?thesis by simp
  next
    case c: (Inr c)
    show ?thesis
    proof (cases "getattr bt ''WATER_STILL''")
      case (Inl e)
      with c for_loop_Inr_step [OF assms(1) [unfolded process_existing_blocks_def] a]
      show ?thesis by simp
    next
      case (Inr w)
      with c show ?thesis by blast
    qed
  qed
  obtain a where "a \<in> set blks" using assms(2) by (cases blks) auto
  with step show ?thesis by auto
qed

lemma fold_const: "fold (\<lambda>i d. d) as d0 = d0"
  by (induction as) simp_all

lemma create_flat_surface_keys:
  assumes "create_flat_surface b bt = Inr sf" and "k \<in> fst ` set sf"
  shows "k \<in> surface_keys b \<and> (\<exists>g. getattr bt ''GRASS'' = Inr g)"
proof (cases "getattr bt ''GRASS''")
  case (Inr g)
  from create_flat_surface_map [OF Inr, of b] assms(1)
  have "\<forall>k. map_of sf k = (if k \<in> surface_keys b then Some g else None)" by auto
  moreover obtain v where "map_of sf k = Some v" using assms(2) by (auto simp: in_keys_iff)
  ultimately have "k \<in> surface_keys b" by (auto split: if_splits)
  with Inr show ?thesis by blast
next
  case (Inl e)
  let ?zs = "range_int (min_z b) (max_z b + 1)"
  let ?xs = "range_int (min_x b) (max_x b + 1)"
  have "sf = []"
  proof (cases "?zs = []")
    case True
    have "create_flat_surface b bt = Inr (fold (\<lambda>i d. d) ?xs [])"
      unfolding create_flat_surface_def by (rule for_loop_total) (simp add: True)
    moreover have "fold (\<lambda>i d. d) ?xs ([] :: (string \<times> int) list) = []"
      by (rule fold_const)
    ultimately show ?thesis using assms(1) by simp
  next
    case False
    show ?thesis
    proof (cases "?xs = []")
      case True
      then show ?thesis using assms(1) by (simp add: create_flat_surface_def)
    next
      case xs: False
      have "create_flat_surface b bt = Inl e"
        unfolding create_flat_surface_def
        by (rule for_loop_fails [OF xs], rule for_loop_fails [OF False]) (simp add: Inl)
      with assms(1) show ?thesis by simp
    qed
  qed
  with assms(2) show ?thesis by simp
qed

subsection \<open>Flattening a flattened mapping\<close>

lemma flattened_surface_Some:
  "k \<in> surface_keys b \<Longrightarrow> \<exists>v. flattened g w s b m k = Some v"
  by (cases "retained w m k") (simp_all add: flattened_def)

lemma flattened_idem:
  assumes m1: "\<And>k. m1 k = flattened g w s b m k"
  shows "flattened g w s b m1 k = flattened g w s b m k"
proof (cases "k \<in> marker_keys (center b)")
  case True
  then show ?thesis by (simp add: flattened_def)
next
  case nm: False
  show ?thesis
  proof (cases "retained w m k")
    case (Some v)
    then have fl: "flattened g w s b m k = Some v" using nm by (simp add: flattened_def)
    from Some obtain c where "from_string k = Inr c" "keeps w c v"
      by (auto simp: retained_Some)
    moreover have "m1 k = Some v" using m1 fl by simp
    ultimately have "retained w m1 k = Some v" by (auto simp: retained_Some)
    then have "flattened g w s b m1 k = Some v" using nm by (simp add: flattened_def)
    with fl show ?thesis by simp
  next
    case None
    show ?thesis
    proof (cases "k \<in> surface_keys b")
      case True
      then have fl: "flattened g w s b m k = Some g" using nm None by (simp add: flattened_def)
      then have m1k: "m1 k = Some g" using m1 by simp
      have "flattened g w s b m1 k = Some g"
      proof (cases "retained w m1 k")
        case None
        then show ?thesis using nm True by (simp add: flattened_def)
      next
        case (Some v')
        then have "v' = g" using m1k by (auto simp: retained_Some)
        with Some show ?thesis using nm by (simp add: flattened_def)
      qed
      with fl show ?thesis by simp
    next
      case False
      then have fl: "flattened g w s b m k = None" using nm None by (simp add: flattened_def)
      then have "m1 k = None" using m1 by simp
      then have "retained w m1 k = None" by (simp add: retained_def)
      then have "flattened g w s b m1 k = None" using nm False by (simp add: flattened_def)
      with fl show ?thesis by simp
    qed
  qed
qed

lemma midpoint_inside: "(a :: int) \<le> c \<Longrightarrow> a \<le> (a + c) div 2 \<and> (a + c) div 2 \<le> c"
  by presburger

lemma center_inside:
  assumes "min_x b \<le> max_x b" and "min_z b \<le> max_z b"
  shows "min_x b \<le> fst (center b) \<and> fst (center b) \<le> max_x b \<and>
         min_z b \<le> snd (center b) \<and> snd (center b) \<le> max_z b"
  using midpoint_inside [OF assms(1)] midpoint_inside [OF assms(2)] by (simp add: center_def)

lemma flattened_inside:
  assumes b: "get_map_bounds blks = Inr b"
    and fl: "flattened g w s b (map_of blks) k = Some v"
    and c: "from_string k = Inr c"
  shows "min_x b \<le> x c \<and> x c \<le> max_x b \<and> min_z b \<le> z c \<and> z c \<le> max_z b"
proof (cases "k \<in> marker_keys (center b)")
  case True
  then obtain h where "from_string k = Inr \<lparr>x = fst (center b), y = TARGET_HEIGHT + h, z = snd (center b)\<rparr>"
    by (auto elim: marker_keys_parse)
  with c have "x c = fst (center b)" "z c = snd (center b)" by auto
  with center_inside [OF get_map_bounds_keys(4,5) [OF b]] show ?thesis by simp
next
  case nm: False
  show ?thesis
  proof (cases "retained w (map_of blks) k")
    case (Some v')
    then have "map_of blks k = Some v'" by (simp add: retained_Some)
    then have "k \<in> fst ` set blks" by (auto simp: in_keys_iff)
    from get_map_bounds_keys(3) [OF b this c] show ?thesis .
  next
    case None
    with fl nm have "k \<in> surface_keys b" by (simp add: flattened_def split: if_splits)
    then obtain i j where "from_string k = Inr \<lparr>x = i, y = TARGET_HEIGHT, z = j\<rparr>"
      and ij: "min_x b \<le> i" "i \<le> max_x b" "min_z b \<le> j" "j \<le> max_z b"
      by (auto elim: surface_keys_parse)
    with c have "x c = i" "z c = j" by auto
    with ij show ?thesis by simp
  qed
qed

lemma flattened_bounds:
  assumes b: "get_map_bounds blks = Inr b"
    and out: "\<And>k. map_of blks1 k = flattened g w s b (map_of blks) k"
  shows "get_map_bounds blks1 = Inr b"
proof (rule get_map_bounds_eqI)
  let ?lo = "\<lparr>x = min_x b, y = TARGET_HEIGHT, z = min_z b\<rparr>"
  let ?hi = "\<lparr>x = max_x b, y = TARGET_HEIGHT, z = max_z b\<rparr>"
  have le: "min_x b \<le> max_x b" "min_z b \<le> max_z b" by (rule get_map_bounds_keys(4,5) [OF b])+
  show "\<forall>k \<in> fst ` set blks1. \<exists>c. from_string k = Inr c"
  proof
    fix k assume "k \<in> fst ` set blks1"
    then obtain v where "map_of blks1 k = Some v" by (auto simp: in_keys_iff)
    then have "flattened g w s b (map_of blks) k = Some v" using out by simp
    from flattened_keys_parse [OF b this] show "\<exists>c. from_string k = Inr c" .
  qed
  show "min_x b \<le> x c \<and> x c \<le> max_x b \<and> min_z b \<le> z c \<and> z c \<le> max_z b"
    if kin: "k \<in> fst ` set blks1" and kc: "from_string k = Inr c" for k c
  proof -
    obtain v where "map_of blks1 k = Some v" using kin by (auto simp: in_keys_iff)
    then have "flattened g w s b (map_of blks) k = Some v" using out by simp
    from flattened_inside [OF b this kc] show ?thesis .
  qed
  have "to_string ?lo \<in> surface_keys b" using le by (intro surface_keysI) simp_all
  from flattened_surface_Some [OF this, of g w s "map_of blks"]
  show "to_string ?lo \<in> fst ` set blks1" by (simp add: in_keys_iff out)
  have "to_string ?hi \<in> surface_keys b" using le by (intro surface_keysI) simp_all
  from flattened_surface_Some [OF this, of g w s "map_of blks"]
  show "to_string ?hi \<in> fst ` set blks1" by (simp add: in_keys_iff out)
  show "from_string (to_string ?lo) = Inr ?lo" by (rule from_string_to_string)
  show "from_string (to_string ?hi) = Inr ?hi" by (rule from_string_to_string)
qed simp_all

subsection \<open>The limit on the digits\<close>

lemma filter_digits_all: "\<forall>c \<in> set ds. is_digit c \<Longrightarrow> filter is_digit ds = ds"
  by (induction ds) simp_all

lemma minus_not_digit: "\<not> is_digit (CHR ''-'')"
  by (simp add: is_digit_def)

lemma int_digits_str_int: "int_digits (str_int v) = str_digits v"
proof (cases "v < 0")
  case True
  then have "nat \<bar>v\<bar> = nat (- v)" by simp
  with True show ?thesis
    by (simp add: int_digits_def str_digits_def str_int_def minus_not_digit
        filter_digits_all [OF str_nat_digits])
next
  case False
  then have "nat \<bar>v\<bar> = nat v" by simp
  with False show ?thesis
    by (simp add: int_digits_def str_digits_def str_int_def filter_digits_all [OF str_nat_digits])
qed

lemma split_to_string:
  "split_sep (CHR '','') (to_string c) = [str_int (x c), str_int (y c), str_int (z c)]"
  by (simp add: to_string_def split_sep_append split_sep_no_sep comma_notin_str_int)

lemma key_within_limit_to_string: "key_within_limit (to_string c) \<longleftrightarrow> coordinate_within_limit c"
  by (simp add: key_within_limit_def coordinate_within_limit_def split_to_string
      int_digits_str_int)

section \<open>The claims\<close>

subsection \<open>Empty block mapping\<close>

text \<open>
  C4, as stated, asks that an empty block mapping is refused by an explicit error for the
  undefined bounds and not by the failure of \<open>min\<close> on an empty sequence. The script has no
  such check: on the empty mapping the list of coordinates is empty and the first \<open>min\<close>
  raises. Counterexample to C4: the error of \<open>get_map_bounds\<close> on the empty mapping is the
  \<open>ValueError\<close> of \<open>min\<close> on an empty sequence.
\<close>

theorem get_map_bounds_empty_min_error:
  "get_map_bounds [] = Inl (ValueError min_empty_sequence)"
  by (simp add: get_map_bounds_def min_seq_def)

text \<open>
  C4, amended: when the block mapping is empty, the bounds computation fails, no bounding
  box is produced, the failure is the \<open>ValueError\<close> that \<open>min\<close> raises on an empty
  sequence, and it ends the whole run, whatever the block type table is.
\<close>

theorem empty_mapping_fails:
  assumes "blocks map_data = []"
  shows "get_map_bounds (blocks map_data) = Inl (ValueError min_empty_sequence) \<and>
         main upper map_data = Inl (ValueError min_empty_sequence)"
  using assms by (simp add: main_bounds_error get_map_bounds_Nil)

theorem empty_mapping_fails_witness:
  "blocks \<lparr>blockTypes = example_block_types, blocks = []\<rparr> = [] \<and>
   get_map_bounds (blocks \<lparr>blockTypes = example_block_types, blocks = []\<rparr>) =
     Inl (ValueError min_empty_sequence) \<and>
   main ascii_upper \<lparr>blockTypes = example_block_types, blocks = []\<rparr> =
     Inl (ValueError min_empty_sequence)"
  using empty_mapping_fails [of "\<lparr>blockTypes = example_block_types, blocks = []\<rparr>" ascii_upper]
  by simp

subsection \<open>Coordinates and their strings\<close>

text \<open>
  C7, as stated, has two halves. The first holds for the triples that \<open>str\<close> converts:
  printing such a coordinate and parsing the string gives the coordinate back. The second
  fails for strings that \<open>from_string\<close> accepts and that are not in the form \<open>to_string\<close>
  prints: \<open>int\<close> skips space around a number and accepts leading zeros, a plus sign and
  single underscores between digits. Counterexample to C7: the keys \<open>"1, 2, 3"\<close> and
  \<open>"01,2,3"\<close> both parse, to the coordinate (1, 2, 3), whose string is neither of them.
\<close>

theorem noncanonical_key_counterexample:
  "from_string ''1, 2, 3'' = Inr \<lparr>x = 1, y = 2, z = 3\<rparr> \<and>
   to_string \<lparr>x = 1, y = 2, z = 3\<rparr> \<noteq> ''1, 2, 3'' \<and>
   from_string ''01,2,3'' = Inr \<lparr>x = 1, y = 2, z = 3\<rparr> \<and>
   to_string \<lparr>x = 1, y = 2, z = 3\<rparr> \<noteq> ''01,2,3''"
  by code_simp

text \<open>
  C7, amended: for every integer triple, negative components included, whose components
  have at most \<open>default_max_str_digits\<close> (4300) decimal digits each, the string of the
  triple is canonical and within the limit, and parsing it yields the triple. A string that
  is canonical, that is three comma separated decimal numerals without space, plus sign,
  underscore, leading zero or negative zero, and whose numerals have at most 4300 digits
  each, parses to a triple within the limit whose string is the original string exactly.
  A string that parses and is not canonical is not reproduced. Beyond 4300 digits \<open>str\<close>
  and \<open>int\<close> raise \<open>ValueError\<close>, and nothing is stated.
\<close>

theorem coordinate_round_trip:
  "(coordinate_within_limit c \<longrightarrow>
      from_string (to_string c) = Inr c \<and> canonical_key (to_string c) \<and>
      key_within_limit (to_string c)) \<and>
   (canonical_key s \<and> key_within_limit s \<longrightarrow>
      (\<exists>d. from_string s = Inr d \<and> coordinate_within_limit d \<and> to_string d = s)) \<and>
   (from_string s = Inr d \<and> to_string d = s \<longrightarrow> canonical_key s)"
proof (intro conjI impI)
  show "from_string (to_string c) = Inr c" by (rule from_string_to_string)
  show "canonical_key (to_string c)" by (rule canonical_key_to_string)
  show "key_within_limit (to_string c)" if "coordinate_within_limit c"
    using that by (simp add: key_within_limit_to_string)
  show "\<exists>d. from_string s = Inr d \<and> coordinate_within_limit d \<and> to_string d = s"
    if h: "canonical_key s \<and> key_within_limit s"
  proof -
    from h canonical_key_round_trip [of s] obtain d where
      d: "from_string s = Inr d" "to_string d = s" by blast
    from h d(2) have "coordinate_within_limit d"
      using key_within_limit_to_string [of d] by simp
    with d show ?thesis by blast
  qed
  show "canonical_key s" if "from_string s = Inr d \<and> to_string d = s"
    using that canonical_key_to_string [of d] by auto
qed

theorem coordinate_round_trip_witness:
  "coordinate_within_limit \<lparr>x = - 3, y = 0, z = 7\<rparr> \<and>
   from_string (to_string \<lparr>x = - 3, y = 0, z = 7\<rparr>) = Inr \<lparr>x = - 3, y = 0, z = 7\<rparr> \<and>
   key_within_limit ''-3,0,7'' \<and>
   from_string ''-3,0,7'' = Inr \<lparr>x = - 3, y = 0, z = 7\<rparr> \<and>
   to_string \<lparr>x = - 3, y = 0, z = 7\<rparr> = ''-3,0,7''"
proof -
  have cl: "coordinate_within_limit \<lparr>x = - 3, y = 0, z = 7\<rparr>" by code_simp
  have ck: "canonical_key ''-3,0,7''" by code_simp
  have kl: "key_within_limit ''-3,0,7''" by code_simp
  have fs: "from_string ''-3,0,7'' = Inr \<lparr>x = - 3, y = 0, z = 7\<rparr>" by code_simp
  from coordinate_round_trip [of "\<lparr>x = - 3, y = 0, z = 7\<rparr>" "''-3,0,7''" "\<lparr>x = - 3, y = 0, z = 7\<rparr>"]
  show ?thesis using cl ck kl fs by auto
qed

subsection \<open>Missing block names\<close>

text \<open>
  C9: when no entry of the block type table has the normalised name (upper case, hyphens
  replaced by underscores) \<open>GRASS\<close>, or none has \<open>WATER_STILL\<close>, or none has
  \<open>STONE_BRICKS\<close>, the run ends with an error and writes no document: no other block id is
  put in the place of the missing one. Whenever the bounds computation succeeds, so that the
  lookups are reached, the error is the \<open>AttributeError\<close> of the first name, in the order
  in which the script reads them, that is not an attribute. This holds whatever the case
  mapping \<open>upper\<close> is.
\<close>

theorem missing_block_name_aborts:
  assumes "n \<in> {''GRASS'', ''WATER_STILL'', ''STONE_BRICKS''}"
    and "\<forall>blk \<in> set (blockTypes doc). replace_char (CHR ''-'') (CHR ''_'') (upper (name blk)) \<noteq> n"
  shows "(\<exists>e. main upper doc = Inl e) \<and>
         (\<forall>b. get_map_bounds (blocks doc) = Inr b \<longrightarrow>
            main upper doc =
              Inl (AttributeError
                (if attrs (BlockTypes_init upper (blockTypes doc)) ''GRASS'' = None then ''GRASS''
                 else if attrs (BlockTypes_init upper (blockTypes doc)) ''WATER_STILL'' = None
                   then ''WATER_STILL''
                 else ''STONE_BRICKS'')))"
proof -
  let ?bt = "BlockTypes_init upper (blockTypes doc)"
  have n: "n \<noteq> ''_blocks''" using assms(1) by auto
  have miss: "getattr ?bt n = Inl (AttributeError n)" by (rule getattr_missing [OF n assms(2)])
  then have none: "attrs ?bt n = None" by (simp add: getattr_Inl)
  have fails: "\<exists>e. main upper doc = Inl e"
    by (rule main_fails_without_name [where ?e1.0 = "AttributeError n"
          and ?e2.0 = "AttributeError n" and ?e3.0 = "AttributeError n"])
       (use assms(1) miss in auto)
  have first: "main upper doc =
              Inl (AttributeError
                (if attrs ?bt ''GRASS'' = None then ''GRASS''
                 else if attrs ?bt ''WATER_STILL'' = None then ''WATER_STILL''
                 else ''STONE_BRICKS''))"
    if b: "get_map_bounds (blocks doc) = Inr b" for b
  proof (cases "attrs ?bt ''GRASS''")
    case None
    then have "getattr ?bt ''GRASS'' = Inl (AttributeError ''GRASS'')" by (simp add: getattr_def)
    from main_GRASS_error [OF b this] None show ?thesis by simp
  next
    case g: (Some g)
    then have g': "getattr ?bt ''GRASS'' = Inr g" by (simp add: getattr_def)
    show ?thesis
    proof (cases "attrs ?bt ''WATER_STILL''")
      case None
      then have "getattr ?bt ''WATER_STILL'' = Inl (AttributeError ''WATER_STILL'')"
        by (simp add: getattr_def)
      from main_WATER_STILL_error [OF b g' this] None g show ?thesis by simp
    next
      case w: (Some w)
      then have w': "getattr ?bt ''WATER_STILL'' = Inr w" by (simp add: getattr_def)
      have "attrs ?bt ''STONE_BRICKS'' = None" using none g w assms(1) by auto
      then have "getattr ?bt ''STONE_BRICKS'' = Inl (AttributeError ''STONE_BRICKS'')"
        by (simp add: getattr_def)
      from main_STONE_BRICKS_error [OF b g' w' this] g w show ?thesis by simp
    qed
  qed
  from fails first show ?thesis by blast
qed

theorem missing_block_name_aborts_witness:
  "''GRASS'' \<in> {''GRASS'', ''WATER_STILL'', ''STONE_BRICKS''} \<and>
   get_map_bounds (blocks \<lparr>blockTypes = tl example_block_types, blocks = [(''0,0,0'', 4)]\<rparr>) =
     Inr \<lparr>min_x = 0, max_x = 0, min_z = 0, max_z = 0\<rparr> \<and>
   main ascii_upper \<lparr>blockTypes = tl example_block_types, blocks = [(''0,0,0'', 4)]\<rparr> =
     Inl (AttributeError ''GRASS'')"
proof -
  let ?doc = "\<lparr>blockTypes = tl example_block_types, blocks = [(''0,0,0'', 4)]\<rparr>"
  have h1: "''GRASS'' \<in> {''GRASS'', ''WATER_STILL'', ''STONE_BRICKS''}" by simp
  have h2: "\<forall>blk \<in> set (blockTypes ?doc).
      replace_char (CHR ''-'') (CHR ''_'') (ascii_upper (name blk)) \<noteq> ''GRASS''"
    by code_simp
  have b: "get_map_bounds (blocks ?doc) = Inr \<lparr>min_x = 0, max_x = 0, min_z = 0, max_z = 0\<rparr>"
    by code_simp
  have a: "attrs (BlockTypes_init ascii_upper (blockTypes ?doc)) ''GRASS'' = None"
    by code_simp
  from missing_block_name_aborts [OF h1 h2] b a
  have "main ascii_upper ?doc = Inl (AttributeError ''GRASS'')" by simp
  with h1 b show ?thesis by blast
qed

subsection \<open>Blocks below the target height\<close>

text \<open>
  C6: after a successful run, every block of the input mapping whose key lies strictly below
  the target height is in the output mapping under the same key with the same id. The
  theorem needs no hypothesis on the block type, so it covers in particular the blocks that
  are not the liquid type, of which C6 speaks.
\<close>

theorem sub_surface_preserved:
  assumes "main upper doc = Inr doc'" and "distinct (map fst (blocks doc))"
    and "(k, v) \<in> set (blocks doc)" and "from_string k = Inr c" and "y c < TARGET_HEIGHT"
  shows "map_of (blocks doc') k = Some v"
proof -
  from main_flattened [OF assms(1,2)] obtain b g w s where
    out: "\<forall>k. map_of (blocks doc') k = flattened g w s b (map_of (blocks doc)) k" by blast
  have m: "map_of (blocks doc) k = Some v" using assms(2,3) by simp
  have "keeps w c v" using assms(5) by (simp add: keeps_def)
  then have "flattened g w s b (map_of (blocks doc)) k = Some v"
    using m assms(4) by (intro flattened_below)
  with out show ?thesis by simp
qed

theorem sub_surface_preserved_witness:
  "main ascii_upper \<lparr>blockTypes = example_block_types, blocks = [(''0,-1,0'', 3), (''0,5,0'', 2)]\<rparr> =
     Inr \<lparr>blockTypes = example_block_types,
          blocks = [(''0,0,0'', 1), (''0,-1,0'', 3), (''0,1,0'', 3), (''0,2,0'', 3)]\<rparr> \<and>
   distinct (map fst [(''0,-1,0'', 3 :: int), (''0,5,0'', 2)]) \<and>
   from_string ''0,-1,0'' = Inr \<lparr>x = 0, y = - 1, z = 0\<rparr> \<and>
   y \<lparr>x = 0, y = - 1, z = 0\<rparr> < TARGET_HEIGHT \<and>
   map_of [(''0,0,0'', 1 :: int), (''0,-1,0'', 3), (''0,1,0'', 3), (''0,2,0'', 3)] ''0,-1,0'' = Some 3"
proof -
  let ?doc = "\<lparr>blockTypes = example_block_types, blocks = [(''0,-1,0'', 3), (''0,5,0'', 2)]\<rparr>"
  let ?doc' = "\<lparr>blockTypes = example_block_types,
          blocks = [(''0,0,0'', 1), (''0,-1,0'', 3), (''0,1,0'', 3), (''0,2,0'', 3)]\<rparr>"
  have run: "main ascii_upper ?doc = Inr ?doc'" by code_simp
  have dist: "distinct (map fst (blocks ?doc))" by simp
  have mem: "(''0,-1,0'', 3) \<in> set (blocks ?doc)" by simp
  have parse: "from_string ''0,-1,0'' = Inr \<lparr>x = 0, y = - 1, z = 0\<rparr>" by code_simp
  have below: "y \<lparr>x = 0, y = - 1, z = 0\<rparr> < TARGET_HEIGHT" by (simp add: TARGET_HEIGHT_def)
  from sub_surface_preserved [OF run dist mem parse below]
  have "map_of (blocks ?doc') ''0,-1,0'' = Some 3" .
  with run dist parse below show ?thesis by simp
qed

subsection \<open>Above the target height\<close>

text \<open>
  C10: after a successful run, every key of the output mapping is a coordinate string, and
  every key whose height is strictly above the target height is the string of one of the
  \<open>CENTER_MARKER_HEIGHT\<close> marker coordinates, at the centre of the bounding box and at
  heights \<open>TARGET_HEIGHT + 1\<close> to \<open>TARGET_HEIGHT + CENTER_MARKER_HEIGHT\<close>, and its value
  is the id of \<open>STONE_BRICKS\<close>. No other block is kept or made strictly above the target
  height.
\<close>

theorem above_surface_only_marker:
  assumes "main upper doc = Inr doc'" and "distinct (map fst (blocks doc))"
    and "k \<in> fst ` set (blocks doc')"
  shows "\<exists>c. from_string k = Inr c \<and>
           (TARGET_HEIGHT < y c \<longrightarrow>
             (\<exists>b h s. get_map_bounds (blocks doc) = Inr b \<and>
                1 \<le> h \<and> h \<le> CENTER_MARKER_HEIGHT \<and>
                c = \<lparr>x = fst (center b), y = TARGET_HEIGHT + h, z = snd (center b)\<rparr> \<and>
                k = to_string c \<and>
                getattr (BlockTypes_init upper (blockTypes doc)) ''STONE_BRICKS'' = Inr s \<and>
                map_of (blocks doc') k = Some s))"
proof -
  from main_flattened [OF assms(1,2)] obtain b g w s where
    b: "get_map_bounds (blocks doc) = Inr b"
    and s: "getattr (BlockTypes_init upper (blockTypes doc)) ''STONE_BRICKS'' = Inr s"
    and out: "\<forall>k. map_of (blocks doc') k = flattened g w s b (map_of (blocks doc)) k"
    by blast
  obtain v where v: "map_of (blocks doc') k = Some v"
    using assms(3) by (auto simp: in_keys_iff)
  then have fl: "flattened g w s b (map_of (blocks doc)) k = Some v" using out by simp
  from flattened_keys_parse [OF b fl] obtain c where c: "from_string k = Inr c" by blast
  have "\<exists>b h s. get_map_bounds (blocks doc) = Inr b \<and>
                1 \<le> h \<and> h \<le> CENTER_MARKER_HEIGHT \<and>
                c = \<lparr>x = fst (center b), y = TARGET_HEIGHT + h, z = snd (center b)\<rparr> \<and>
                k = to_string c \<and>
                getattr (BlockTypes_init upper (blockTypes doc)) ''STONE_BRICKS'' = Inr s \<and>
                map_of (blocks doc') k = Some s"
    if above: "TARGET_HEIGHT < y c"
  proof -
    from flattened_above [OF fl c above] have mk: "k \<in> marker_keys (center b)" and vs: "v = s"
      by simp_all
    from mk obtain h where h: "1 \<le> h" "h \<le> CENTER_MARKER_HEIGHT"
      and k: "k = to_string \<lparr>x = fst (center b), y = TARGET_HEIGHT + h, z = snd (center b)\<rparr>"
      and p: "from_string k = Inr \<lparr>x = fst (center b), y = TARGET_HEIGHT + h, z = snd (center b)\<rparr>"
      by (auto elim: marker_keys_parse)
    from p c have "c = \<lparr>x = fst (center b), y = TARGET_HEIGHT + h, z = snd (center b)\<rparr>" by simp
    with b h k s v vs show ?thesis by blast
  qed
  with c show ?thesis by blast
qed

theorem above_surface_only_marker_witness:
  "main ascii_upper \<lparr>blockTypes = example_block_types, blocks = [(''0,3,0'', 1), (''2,-4,0'', 3)]\<rparr> =
     Inr \<lparr>blockTypes = example_block_types,
          blocks = [(''0,0,0'', 1), (''1,0,0'', 1), (''2,0,0'', 1), (''2,-4,0'', 3),
                    (''1,1,0'', 3), (''1,2,0'', 3)]\<rparr> \<and>
   distinct (map fst [(''0,3,0'', 1 :: int), (''2,-4,0'', 3)]) \<and>
   from_string ''1,2,0'' = Inr \<lparr>x = 1, y = 2, z = 0\<rparr> \<and>
   TARGET_HEIGHT < y \<lparr>x = 1, y = 2, z = 0\<rparr> \<and>
   get_map_bounds [(''0,3,0'', 1), (''2,-4,0'', 3)] =
     Inr \<lparr>min_x = 0, max_x = 2, min_z = 0, max_z = 0\<rparr> \<and>
   getattr (BlockTypes_init ascii_upper example_block_types) ''STONE_BRICKS'' = Inr 3 \<and>
   map_of [(''0,0,0'', 1 :: int), (''1,0,0'', 1), (''2,0,0'', 1), (''2,-4,0'', 3),
           (''1,1,0'', 3), (''1,2,0'', 3)] ''1,2,0'' = Some 3"
proof -
  let ?doc = "\<lparr>blockTypes = example_block_types, blocks = [(''0,3,0'', 1), (''2,-4,0'', 3)]\<rparr>"
  let ?doc' = "\<lparr>blockTypes = example_block_types,
          blocks = [(''0,0,0'', 1), (''1,0,0'', 1), (''2,0,0'', 1), (''2,-4,0'', 3),
                    (''1,1,0'', 3), (''1,2,0'', 3)]\<rparr>"
  have run: "main ascii_upper ?doc = Inr ?doc'" by code_simp
  have dist: "distinct (map fst (blocks ?doc))" by simp
  have mem: "''1,2,0'' \<in> fst ` set (blocks ?doc')" by simp
  have parse: "from_string ''1,2,0'' = Inr \<lparr>x = 1, y = 2, z = 0\<rparr>" by code_simp
  have above: "TARGET_HEIGHT < y \<lparr>x = 1, y = 2, z = 0\<rparr>" by (simp add: TARGET_HEIGHT_def)
  have bnd: "get_map_bounds [(''0,3,0'', 1), (''2,-4,0'', 3)] =
     Inr \<lparr>min_x = 0, max_x = 2, min_z = 0, max_z = 0\<rparr>" by code_simp
  from above_surface_only_marker [OF run dist mem] parse above
  obtain s where "getattr (BlockTypes_init ascii_upper (blockTypes ?doc)) ''STONE_BRICKS'' = Inr s"
    and "map_of (blocks ?doc') ''1,2,0'' = Some s" by auto
  then have "getattr (BlockTypes_init ascii_upper example_block_types) ''STONE_BRICKS'' = Inr 3"
    and "map_of (blocks ?doc') ''1,2,0'' = Some 3" by simp_all
  with run dist parse above bnd show ?thesis by simp
qed

subsection \<open>The centre marker\<close>

text \<open>
  C8: the script's constants are \<open>TARGET_HEIGHT = 0\<close> and \<open>CENTER_MARKER_HEIGHT = 2\<close>. For the
  bounding box with \<open>min_x = 0\<close>, \<open>max_x = 4\<close>, \<open>min_z = 0\<close>, \<open>max_z = 2\<close> the centre,
  computed by floor division, is (2, 1). The marker loop is the last step of the run and
  is applied to the surface merged with the retained blocks; whatever mapping it is applied
  to, its result maps \<open>"2,1,1"\<close> and \<open>"2,2,1"\<close> to the id of \<open>STONE_BRICKS\<close>. So does the
  output of a successful run on a document with this bounding box; the output has every key
  once, and no other key of it denotes one of these two coordinates.
\<close>

theorem center_marker_placement:
  assumes "main upper doc = Inr doc'" and "distinct (map fst (blocks doc))"
    and "get_map_bounds (blocks doc) = Inr \<lparr>min_x = 0, max_x = 4, min_z = 0, max_z = 2\<rparr>"
  shows "TARGET_HEIGHT = 0 \<and> CENTER_MARKER_HEIGHT = 2 \<and>
    center \<lparr>min_x = 0, max_x = 4, min_z = 0, max_z = 2\<rparr> = (2, 1) \<and>
    (\<exists>s surface_blocks underground_blocks.
       getattr (BlockTypes_init upper (blockTypes doc)) ''STONE_BRICKS'' = Inr s \<and>
       create_flat_surface \<lparr>min_x = 0, max_x = 4, min_z = 0, max_z = 2\<rparr>
         (BlockTypes_init upper (blockTypes doc)) = Inr surface_blocks \<and>
       process_existing_blocks (blocks doc) (BlockTypes_init upper (blockTypes doc)) =
         Inr underground_blocks \<and>
       add_center_marker (update_dict surface_blocks underground_blocks) (2, 1)
         (BlockTypes_init upper (blockTypes doc)) = Inr (blocks doc') \<and>
       map_of (blocks doc') ''2,1,1'' = Some s \<and>
       map_of (blocks doc') ''2,2,1'' = Some s \<and>
       (\<forall>d d'. add_center_marker d (2, 1) (BlockTypes_init upper (blockTypes doc)) = Inr d' \<longrightarrow>
          map_of d' ''2,1,1'' = Some s \<and> map_of d' ''2,2,1'' = Some s)) \<and>
    distinct (map fst (blocks doc')) \<and>
    (\<forall>k c. k \<in> fst ` set (blocks doc') \<and> from_string k = Inr c \<and>
       (c = \<lparr>x = 2, y = 1, z = 1\<rparr> \<or> c = \<lparr>x = 2, y = 2, z = 1\<rparr>) \<longrightarrow> k = to_string c)"
proof -
  let ?b = "\<lparr>min_x = 0, max_x = 4, min_z = 0, max_z = 2\<rparr>"
  let ?bt = "BlockTypes_init upper (blockTypes doc)"
  have cen: "center ?b = (2, 1)" by (simp add: center_def)
  have k1: "to_string \<lparr>x = 2, y = 1, z = 1\<rparr> = ''2,1,1''" by code_simp
  have k2: "to_string \<lparr>x = 2, y = 2, z = 1\<rparr> = ''2,2,1''" by code_simp
  have mk: "marker_keys (2, 1) = {''2,1,1'', ''2,2,1''}"
  proof -
    have "{1..2::int} = {1, 2}" by auto
    then show ?thesis
      using k1 k2 by (simp add: marker_keys_def TARGET_HEIGHT_def CENTER_MARKER_HEIGHT_def)
  qed
  from main_flattened [OF assms(1,2)] assms(3) obtain g w s where
    g: "getattr ?bt ''GRASS'' = Inr g"
    and w: "getattr ?bt ''WATER_STILL'' = Inr w"
    and s: "getattr ?bt ''STONE_BRICKS'' = Inr s"
    and dist': "distinct (map fst (blocks doc'))"
    and out: "\<forall>k. map_of (blocks doc') k = flattened g w s ?b (map_of (blocks doc)) k"
    by auto
  have marker: "map_of d' ''2,1,1'' = Some s \<and> map_of d' ''2,2,1'' = Some s"
    if "add_center_marker d (2, 1) ?bt = Inr d'" for d d'
  proof -
    from add_center_marker_map [OF s, of d "(2, 1)"] that
    have "\<forall>k. map_of d' k = (if k \<in> marker_keys (2, 1) then Some s else map_of d k)" by auto
    then show ?thesis by (simp add: mk)
  qed
  obtain sf where sf: "create_flat_surface ?b ?bt = Inr sf"
    using create_flat_surface_map [OF g, of ?b] by blast
  obtain ug where ug: "process_existing_blocks (blocks doc) ?bt = Inr ug"
    using process_existing_blocks_total [OF w get_map_bounds_keys(2) [OF assms(3)]] by blast
  have last: "add_center_marker (update_dict sf ug) (2, 1) ?bt = Inr (blocks doc')"
    using assms(1) by (auto simp: main_def assms(3) sf ug cen split: sum.splits)
  have only: "k = to_string c"
    if kin: "k \<in> fst ` set (blocks doc')" and kp: "from_string k = Inr c"
      and kc: "c = \<lparr>x = 2, y = 1, z = 1\<rparr> \<or> c = \<lparr>x = 2, y = 2, z = 1\<rparr>" for k c
  proof -
    obtain v where "map_of (blocks doc') k = Some v" using kin by (auto simp: in_keys_iff)
    then have fl: "flattened g w s ?b (map_of (blocks doc)) k = Some v" using out by simp
    have "TARGET_HEIGHT < y c" using kc by (auto simp: TARGET_HEIGHT_def)
    from flattened_above [OF fl kp this] have "k \<in> marker_keys (center ?b)" by simp
    then obtain h where "k = to_string \<lparr>x = fst (center ?b), y = TARGET_HEIGHT + h, z = snd (center ?b)\<rparr>"
      and "from_string k = Inr \<lparr>x = fst (center ?b), y = TARGET_HEIGHT + h, z = snd (center ?b)\<rparr>"
      by (auto elim: marker_keys_parse)
    with kp show ?thesis by simp
  qed
  have "TARGET_HEIGHT = 0" "CENTER_MARKER_HEIGHT = 2"
    by (simp_all add: TARGET_HEIGHT_def CENTER_MARKER_HEIGHT_def)
  moreover note cen
  moreover have "\<exists>s surface_blocks underground_blocks.
       getattr ?bt ''STONE_BRICKS'' = Inr s \<and>
       create_flat_surface ?b ?bt = Inr surface_blocks \<and>
       process_existing_blocks (blocks doc) ?bt = Inr underground_blocks \<and>
       add_center_marker (update_dict surface_blocks underground_blocks) (2, 1) ?bt = Inr (blocks doc') \<and>
       map_of (blocks doc') ''2,1,1'' = Some s \<and>
       map_of (blocks doc') ''2,2,1'' = Some s \<and>
       (\<forall>d d'. add_center_marker d (2, 1) ?bt = Inr d' \<longrightarrow>
          map_of d' ''2,1,1'' = Some s \<and> map_of d' ''2,2,1'' = Some s)"
    using s sf ug last marker [OF last] marker by blast
  moreover note dist'
  moreover have "\<forall>k c. k \<in> fst ` set (blocks doc') \<and> from_string k = Inr c \<and>
       (c = \<lparr>x = 2, y = 1, z = 1\<rparr> \<or> c = \<lparr>x = 2, y = 2, z = 1\<rparr>) \<longrightarrow> k = to_string c"
    using only by blast
  ultimately show ?thesis by blast
qed


theorem center_marker_placement_witness:
  "get_map_bounds [(''0,-1,0'', 3), (''4,5,2'', 2)] =
     Inr \<lparr>min_x = 0, max_x = 4, min_z = 0, max_z = 2\<rparr> \<and>
   distinct (map fst [(''0,-1,0'', 3 :: int), (''4,5,2'', 2)]) \<and>
   main ascii_upper \<lparr>blockTypes = example_block_types, blocks = [(''0,-1,0'', 3), (''4,5,2'', 2)]\<rparr> =
     Inr \<lparr>blockTypes = example_block_types, blocks =
       [(''0,0,0'', 1 :: int), (''0,0,1'', 1), (''0,0,2'', 1), (''1,0,0'', 1),
        (''1,0,1'', 1), (''1,0,2'', 1), (''2,0,0'', 1), (''2,0,1'', 1),
        (''2,0,2'', 1), (''3,0,0'', 1), (''3,0,1'', 1), (''3,0,2'', 1),
        (''4,0,0'', 1), (''4,0,1'', 1), (''4,0,2'', 1), (''0,-1,0'', 3),
        (''2,1,1'', 3), (''2,2,1'', 3)]\<rparr> \<and>
   center \<lparr>min_x = 0, max_x = 4, min_z = 0, max_z = 2\<rparr> = (2, 1) \<and>
   getattr (BlockTypes_init ascii_upper example_block_types) ''STONE_BRICKS'' = Inr 3 \<and>
   map_of
       [(''0,0,0'', 1 :: int), (''0,0,1'', 1), (''0,0,2'', 1), (''1,0,0'', 1),
        (''1,0,1'', 1), (''1,0,2'', 1), (''2,0,0'', 1), (''2,0,1'', 1),
        (''2,0,2'', 1), (''3,0,0'', 1), (''3,0,1'', 1), (''3,0,2'', 1),
        (''4,0,0'', 1), (''4,0,1'', 1), (''4,0,2'', 1), (''0,-1,0'', 3),
        (''2,1,1'', 3), (''2,2,1'', 3)] ''2,1,1'' = Some 3 \<and>
   map_of
       [(''0,0,0'', 1 :: int), (''0,0,1'', 1), (''0,0,2'', 1), (''1,0,0'', 1),
        (''1,0,1'', 1), (''1,0,2'', 1), (''2,0,0'', 1), (''2,0,1'', 1),
        (''2,0,2'', 1), (''3,0,0'', 1), (''3,0,1'', 1), (''3,0,2'', 1),
        (''4,0,0'', 1), (''4,0,1'', 1), (''4,0,2'', 1), (''0,-1,0'', 3),
        (''2,1,1'', 3), (''2,2,1'', 3)] ''2,2,1'' = Some 3"
proof -
  let ?doc = "\<lparr>blockTypes = example_block_types, blocks = [(''0,-1,0'', 3), (''4,5,2'', 2)]\<rparr>"
  let ?out = "[(''0,0,0'', 1 :: int), (''0,0,1'', 1), (''0,0,2'', 1), (''1,0,0'', 1),
        (''1,0,1'', 1), (''1,0,2'', 1), (''2,0,0'', 1), (''2,0,1'', 1),
        (''2,0,2'', 1), (''3,0,0'', 1), (''3,0,1'', 1), (''3,0,2'', 1),
        (''4,0,0'', 1), (''4,0,1'', 1), (''4,0,2'', 1), (''0,-1,0'', 3),
        (''2,1,1'', 3), (''2,2,1'', 3)]"
  let ?doc' = "\<lparr>blockTypes = example_block_types, blocks = ?out\<rparr>"
  have bnd: "get_map_bounds (blocks ?doc) = Inr \<lparr>min_x = 0, max_x = 4, min_z = 0, max_z = 2\<rparr>"
    by code_simp
  have dist: "distinct (map fst (blocks ?doc))" by simp
  have run: "main ascii_upper ?doc = Inr ?doc'" by code_simp
  have st: "getattr (BlockTypes_init ascii_upper example_block_types) ''STONE_BRICKS'' = Inr 3"
    by code_simp
  from center_marker_placement [OF run dist bnd] obtain s where
    cen: "center \<lparr>min_x = 0, max_x = 4, min_z = 0, max_z = 2\<rparr> = (2, 1)"
    and s: "getattr (BlockTypes_init ascii_upper (blockTypes ?doc)) ''STONE_BRICKS'' = Inr s"
    and m: "map_of (blocks ?doc') ''2,1,1'' = Some s" "map_of (blocks ?doc') ''2,2,1'' = Some s"
    by blast
  from s st have "s = 3" by simp
  with m have "map_of ?out ''2,1,1'' = Some 3" "map_of ?out ''2,2,1'' = Some 3" by simp_all
  with bnd dist run cen st show ?thesis by simp
qed

subsection \<open>Liquid blocks\<close>

text \<open>
  C2, as stated, speaks of every block whose type is flagged as liquid in the block type
  table. The script never reads the flag \<open>isLiquid\<close> when it filters: it compares the block
  id with the id of the one block named \<open>WATER_STILL\<close>. Counterexample to C2: the table
  flags lava (id 4) as liquid, a lava block at \<open>"0,0,0"\<close> has height 0, which is not
  above the target height, and the output maps \<open>"0,0,0"\<close> to grass (id 1): the block is
  not retained.
\<close>

theorem liquid_flag_counterexample:
  "\<lparr>id' = 4, name = ''lava'', textureUri = ''blocks/lava.png'', isLiquid = True\<rparr>
     \<in> set example_block_types \<and>
   from_string ''0,0,0'' = Inr \<lparr>x = 0, y = 0, z = 0\<rparr> \<and>
   y \<lparr>x = 0, y = 0, z = 0\<rparr> \<le> TARGET_HEIGHT \<and>
   main ascii_upper \<lparr>blockTypes = example_block_types, blocks = [(''0,0,0'', 4)]\<rparr> =
     Inr \<lparr>blockTypes = example_block_types,
          blocks = [(''0,0,0'', 1), (''0,1,0'', 3), (''0,2,0'', 3)]\<rparr> \<and>
   map_of [(''0,0,0'', 1 :: int), (''0,1,0'', 3), (''0,2,0'', 3)] ''0,0,0'' = Some 1"
  by code_simp

text \<open>
  C2, amended: after a successful run, for every block of the input mapping whose id is the
  id of \<open>WATER_STILL\<close>: if its height is at most the target height, the output maps its key
  to the same id; if its height is above the target height, its key is absent from the
  output, unless the key is the string of one of the centre marker coordinates, where the
  output holds the id of \<open>STONE_BRICKS\<close>.
\<close>

theorem water_pruning:
  assumes "main upper doc = Inr doc'" and "distinct (map fst (blocks doc))"
    and "(k, v) \<in> set (blocks doc)"
    and "getattr (BlockTypes_init upper (blockTypes doc)) ''WATER_STILL'' = Inr v"
    and "from_string k = Inr c"
  shows "(y c \<le> TARGET_HEIGHT \<longrightarrow> map_of (blocks doc') k = Some v) \<and>
         (TARGET_HEIGHT < y c \<longrightarrow>
            map_of (blocks doc') k = None \<or>
            (\<exists>b h s. get_map_bounds (blocks doc) = Inr b \<and>
               1 \<le> h \<and> h \<le> CENTER_MARKER_HEIGHT \<and>
               k = to_string \<lparr>x = fst (center b), y = TARGET_HEIGHT + h, z = snd (center b)\<rparr> \<and>
               getattr (BlockTypes_init upper (blockTypes doc)) ''STONE_BRICKS'' = Inr s \<and>
               map_of (blocks doc') k = Some s))"
proof -
  from main_flattened [OF assms(1,2)] assms(4) obtain b g s where
    b: "get_map_bounds (blocks doc) = Inr b"
    and s: "getattr (BlockTypes_init upper (blockTypes doc)) ''STONE_BRICKS'' = Inr s"
    and out: "\<forall>k. map_of (blocks doc') k = flattened g v s b (map_of (blocks doc)) k"
    by auto
  have m: "map_of (blocks doc) k = Some v" using assms(2,3) by simp
  have low: "map_of (blocks doc') k = Some v" if le: "y c \<le> TARGET_HEIGHT"
  proof -
    have "keeps v c v" using le by (simp add: keeps_def)
    then have "flattened g v s b (map_of (blocks doc)) k = Some v"
      using m assms(5) by (intro flattened_below)
    with out show ?thesis by simp
  qed
  have high: "map_of (blocks doc') k = None \<or>
            (\<exists>b h s. get_map_bounds (blocks doc) = Inr b \<and>
               1 \<le> h \<and> h \<le> CENTER_MARKER_HEIGHT \<and>
               k = to_string \<lparr>x = fst (center b), y = TARGET_HEIGHT + h, z = snd (center b)\<rparr> \<and>
               getattr (BlockTypes_init upper (blockTypes doc)) ''STONE_BRICKS'' = Inr s \<and>
               map_of (blocks doc') k = Some s)"
    if above: "TARGET_HEIGHT < y c"
  proof (cases "map_of (blocks doc') k")
    case None
    then show ?thesis by simp
  next
    case (Some v')
    then have fl: "flattened g v s b (map_of (blocks doc)) k = Some v'" using out by simp
    from flattened_above [OF fl assms(5) above] have mk: "k \<in> marker_keys (center b)"
      and v': "v' = s" by simp_all
    from mk obtain h where "1 \<le> h" "h \<le> CENTER_MARKER_HEIGHT"
      "k = to_string \<lparr>x = fst (center b), y = TARGET_HEIGHT + h, z = snd (center b)\<rparr>"
      by (auto elim: marker_keys_parse)
    with b s Some v' show ?thesis by blast
  qed
  from low high show ?thesis by blast
qed

theorem water_pruning_witness:
  "main ascii_upper \<lparr>blockTypes = example_block_types, blocks = [(''0,0,0'', 2), (''0,5,0'', 2)]\<rparr> =
     Inr \<lparr>blockTypes = example_block_types,
          blocks = [(''0,0,0'', 2), (''0,1,0'', 3), (''0,2,0'', 3)]\<rparr> \<and>
   distinct (map fst [(''0,0,0'', 2 :: int), (''0,5,0'', 2)]) \<and>
   getattr (BlockTypes_init ascii_upper example_block_types) ''WATER_STILL'' = Inr 2 \<and>
   from_string ''0,0,0'' = Inr \<lparr>x = 0, y = 0, z = 0\<rparr> \<and>
   y \<lparr>x = 0, y = 0, z = 0\<rparr> \<le> TARGET_HEIGHT \<and>
   map_of [(''0,0,0'', 2 :: int), (''0,1,0'', 3), (''0,2,0'', 3)] ''0,0,0'' = Some 2 \<and>
   from_string ''0,5,0'' = Inr \<lparr>x = 0, y = 5, z = 0\<rparr> \<and>
   TARGET_HEIGHT < y \<lparr>x = 0, y = 5, z = 0\<rparr> \<and>
   map_of [(''0,0,0'', 2 :: int), (''0,1,0'', 3), (''0,2,0'', 3)] ''0,5,0'' = None"
proof -
  let ?doc = "\<lparr>blockTypes = example_block_types, blocks = [(''0,0,0'', 2), (''0,5,0'', 2)]\<rparr>"
  let ?doc' = "\<lparr>blockTypes = example_block_types,
          blocks = [(''0,0,0'', 2), (''0,1,0'', 3), (''0,2,0'', 3)]\<rparr>"
  have run: "main ascii_upper ?doc = Inr ?doc'" by code_simp
  have dist: "distinct (map fst (blocks ?doc))" by simp
  have w: "getattr (BlockTypes_init ascii_upper (blockTypes ?doc)) ''WATER_STILL'' = Inr 2"
    by code_simp
  have p0: "from_string ''0,0,0'' = Inr \<lparr>x = 0, y = 0, z = 0\<rparr>" by code_simp
  have p5: "from_string ''0,5,0'' = Inr \<lparr>x = 0, y = 5, z = 0\<rparr>" by code_simp
  have m0: "(''0,0,0'', 2) \<in> set (blocks ?doc)" by simp
  have m5: "(''0,5,0'', 2) \<in> set (blocks ?doc)" by simp
  have le: "y \<lparr>x = 0, y = 0, z = 0\<rparr> \<le> TARGET_HEIGHT" by (simp add: TARGET_HEIGHT_def)
  have gt: "TARGET_HEIGHT < y \<lparr>x = 0, y = 5, z = 0\<rparr>" by (simp add: TARGET_HEIGHT_def)
  from water_pruning [OF run dist m0 w p0] le
  have r0: "map_of (blocks ?doc') ''0,0,0'' = Some 2" by simp
  have r5: "map_of (blocks ?doc') ''0,5,0'' = None" by simp
  from run dist w p0 le r0 p5 gt r5 show ?thesis by simp
qed

subsection \<open>The surface\<close>

text \<open>
  C3, as stated, lets only the centre marker change a surface cell. The marker lies
  strictly above the target height and never touches the surface; what does replace the
  grass is a \<open>WATER_STILL\<close> block that the input has at the target height, which the
  retention filter keeps and the merge puts over the surface. Counterexample to C3: the
  input has water (id 2) at \<open>"1,0,0"\<close>; the bounding box is the single column (1, 0), its
  surface key is \<open>"1,0,0"\<close>, the marker keys are \<open>"1,1,0"\<close> and \<open>"1,2,0"\<close>, the
  grass id is 1, and the output maps \<open>"1,0,0"\<close> to 2.
\<close>

theorem water_on_surface_counterexample:
  "get_map_bounds [(''1,0,0'', 2)] = Inr \<lparr>min_x = 1, max_x = 1, min_z = 0, max_z = 0\<rparr> \<and>
   to_string \<lparr>x = 1, y = TARGET_HEIGHT, z = 0\<rparr> = ''1,0,0'' \<and>
   getattr (BlockTypes_init ascii_upper example_block_types) ''GRASS'' = Inr 1 \<and>
   main ascii_upper \<lparr>blockTypes = example_block_types, blocks = [(''1,0,0'', 2)]\<rparr> =
     Inr \<lparr>blockTypes = example_block_types,
          blocks = [(''1,0,0'', 2), (''1,1,0'', 3), (''1,2,0'', 3)]\<rparr> \<and>
   map_of [(''1,0,0'', 2 :: int), (''1,1,0'', 3), (''1,2,0'', 3)] ''1,0,0'' = Some 2"
  by code_simp

text \<open>
  C3, amended: after a successful run, for every integer \<open>i\<close> in \<open>[min_x, max_x]\<close> and
  every integer \<open>j\<close> in \<open>[min_z, max_z]\<close> of the bounding box of the input, the output
  mapping contains the key of \<open>(i, TARGET_HEIGHT, j)\<close>; its value is the id of \<open>GRASS\<close>,
  except where the input mapping holds the id of \<open>WATER_STILL\<close> under that same key, where
  the value is that id. No marker key is a surface key.
\<close>

theorem surface_complete:
  assumes "main upper doc = Inr doc'" and "distinct (map fst (blocks doc))"
    and "get_map_bounds (blocks doc) = Inr b"
    and "min_x b \<le> i" and "i \<le> max_x b" and "min_z b \<le> j" and "j \<le> max_z b"
  shows "\<exists>g w. getattr (BlockTypes_init upper (blockTypes doc)) ''GRASS'' = Inr g \<and>
           getattr (BlockTypes_init upper (blockTypes doc)) ''WATER_STILL'' = Inr w \<and>
           map_of (blocks doc') (to_string \<lparr>x = i, y = TARGET_HEIGHT, z = j\<rparr>) =
             Some (if map_of (blocks doc) (to_string \<lparr>x = i, y = TARGET_HEIGHT, z = j\<rparr>) = Some w
                   then w else g) \<and>
           to_string \<lparr>x = i, y = TARGET_HEIGHT, z = j\<rparr> \<notin> marker_keys (center b)"
proof -
  let ?k = "to_string \<lparr>x = i, y = TARGET_HEIGHT, z = j\<rparr>"
  let ?c = "\<lparr>x = i, y = TARGET_HEIGHT, z = j\<rparr>"
  from main_flattened [OF assms(1,2)] assms(3) obtain g w s where
    g: "getattr (BlockTypes_init upper (blockTypes doc)) ''GRASS'' = Inr g"
    and w: "getattr (BlockTypes_init upper (blockTypes doc)) ''WATER_STILL'' = Inr w"
    and out: "\<forall>k. map_of (blocks doc') k = flattened g w s b (map_of (blocks doc)) k"
    by auto
  have parse: "from_string ?k = Inr ?c" by (rule from_string_to_string)
  have nm: "?k \<notin> marker_keys (center b)"
  proof
    assume "?k \<in> marker_keys (center b)"
    then obtain h where "from_string ?k = Inr \<lparr>x = fst (center b), y = TARGET_HEIGHT + h, z = snd (center b)\<rparr>"
      and "1 \<le> h" by (auto elim: marker_keys_parse)
    with parse show False by simp
  qed
  have sk: "?k \<in> surface_keys b" by (rule surface_keysI [OF assms(4-7)])
  have ret: "retained w (map_of (blocks doc)) ?k =
             (if map_of (blocks doc) ?k = Some w then Some w else None)"
    by (auto simp: retained_def parse keeps_def split: option.splits)
  have "flattened g w s b (map_of (blocks doc)) ?k =
          Some (if map_of (blocks doc) ?k = Some w then w else g)"
    by (simp add: flattened_def nm ret sk)
  with out g w nm show ?thesis by auto
qed


theorem surface_complete_witness:
  "main ascii_upper \<lparr>blockTypes = example_block_types, blocks = [(''0,0,0'', 2), (''1,-2,0'', 3)]\<rparr> =
     Inr \<lparr>blockTypes = example_block_types,
          blocks = [(''0,0,0'', 2), (''1,0,0'', 1), (''1,-2,0'', 3), (''0,1,0'', 3), (''0,2,0'', 3)]\<rparr> \<and>
   distinct (map fst [(''0,0,0'', 2 :: int), (''1,-2,0'', 3)]) \<and>
   get_map_bounds [(''0,0,0'', 2), (''1,-2,0'', 3)] =
     Inr \<lparr>min_x = 0, max_x = 1, min_z = 0, max_z = 0\<rparr> \<and>
   getattr (BlockTypes_init ascii_upper example_block_types) ''GRASS'' = Inr 1 \<and>
   getattr (BlockTypes_init ascii_upper example_block_types) ''WATER_STILL'' = Inr 2 \<and>
   to_string \<lparr>x = 1, y = TARGET_HEIGHT, z = 0\<rparr> = ''1,0,0'' \<and>
   to_string \<lparr>x = 0, y = TARGET_HEIGHT, z = 0\<rparr> = ''0,0,0'' \<and>
   map_of [(''0,0,0'', 2 :: int), (''1,0,0'', 1), (''1,-2,0'', 3), (''0,1,0'', 3), (''0,2,0'', 3)]
     ''1,0,0'' = Some 1 \<and>
   map_of [(''0,0,0'', 2 :: int), (''1,0,0'', 1), (''1,-2,0'', 3), (''0,1,0'', 3), (''0,2,0'', 3)]
     ''0,0,0'' = Some 2"
proof -
  let ?doc = "\<lparr>blockTypes = example_block_types, blocks = [(''0,0,0'', 2), (''1,-2,0'', 3)]\<rparr>"
  let ?out = "[(''0,0,0'', 2 :: int), (''1,0,0'', 1), (''1,-2,0'', 3), (''0,1,0'', 3), (''0,2,0'', 3)]"
  let ?doc' = "\<lparr>blockTypes = example_block_types, blocks = ?out\<rparr>"
  let ?b = "\<lparr>min_x = 0, max_x = 1, min_z = 0, max_z = 0\<rparr>"
  have run: "main ascii_upper ?doc = Inr ?doc'" by code_simp
  have dist: "distinct (map fst (blocks ?doc))" by simp
  have bnd: "get_map_bounds (blocks ?doc) = Inr ?b" by code_simp
  have g: "getattr (BlockTypes_init ascii_upper (blockTypes ?doc)) ''GRASS'' = Inr 1" by code_simp
  have w: "getattr (BlockTypes_init ascii_upper (blockTypes ?doc)) ''WATER_STILL'' = Inr 2"
    by code_simp
  have k1: "to_string \<lparr>x = 1, y = TARGET_HEIGHT, z = 0\<rparr> = ''1,0,0''" by code_simp
  have k0: "to_string \<lparr>x = 0, y = TARGET_HEIGHT, z = 0\<rparr> = ''0,0,0''" by code_simp
  from surface_complete [OF run dist bnd, of 1 0] g w
  have r1: "map_of ?out ''1,0,0'' = Some 1" by (simp add: k1)
  from surface_complete [OF run dist bnd, of 0 0] g w
  have r0: "map_of ?out ''0,0,0'' = Some 2" by (simp add: k0)
  from run dist bnd g w k1 k0 r1 r0 show ?thesis by simp
qed

subsection \<open>The merge of the retained blocks onto the surface\<close>

text \<open>
  C1, as stated, says that no key is both retained by the filter and written by the surface
  builder. The filter keeps a \<open>WATER_STILL\<close> block whose height equals the target height,
  and the surface is at the target height. Counterexample to C1: for the mapping that has
  water (id 2) at \<open>"0,0,0"\<close>, the filter keeps the key \<open>"0,0,0"\<close> and the surface over
  the bounding box of that mapping has the key \<open>"0,0,0"\<close>.
\<close>

theorem retained_surface_collision_counterexample:
  "get_map_bounds [(''0,0,0'', 2)] = Inr \<lparr>min_x = 0, max_x = 0, min_z = 0, max_z = 0\<rparr> \<and>
   process_existing_blocks [(''0,0,0'', 2)] example_types = Inr [(''0,0,0'', 2)] \<and>
   create_flat_surface \<lparr>min_x = 0, max_x = 0, min_z = 0, max_z = 0\<rparr> example_types =
     Inr [(''0,0,0'', 1)] \<and>
   ''0,0,0'' \<in> fst ` set [(''0,0,0'', 2 :: int)] \<inter> fst ` set [(''0,0,0'', 1 :: int)]"
  by code_simp

text \<open>
  C1, amended: a key that is both retained by the filter and written by the surface builder
  belongs to a block of the input whose id is the id of \<open>WATER_STILL\<close> and whose height
  equals the target height, and in the merge that key holds the retained id. So the keys
  retained for all other blocks are disjoint from the keys of the surface. This holds for
  every bounding box, not only the one of the mapping.
\<close>

theorem retained_surface_overlap:
  assumes "process_existing_blocks blks block_types = Inr underground_blocks"
    and "create_flat_surface bounds block_types = Inr surface_blocks"
    and "distinct (map fst blks)"
    and "(k, v) \<in> set underground_blocks"
    and "k \<in> fst ` set surface_blocks"
  shows "getattr block_types ''WATER_STILL'' = Inr v \<and>
         (\<exists>c. from_string k = Inr c \<and> y c = TARGET_HEIGHT) \<and>
         (k, v) \<in> set blks \<and>
         map_of (update_dict surface_blocks underground_blocks) k = Some v"
proof -
  have ne: "blks \<noteq> []"
  proof
    assume "blks = []"
    then have "underground_blocks = []" using assms(1) by (simp add: process_existing_blocks_def)
    with assms(4) show False by simp
  qed
  from process_existing_blocks_Inr [OF assms(1) ne] obtain w where
    w: "getattr block_types ''WATER_STILL'' = Inr w"
    and parse: "\<forall>k \<in> fst ` set blks. \<exists>c. from_string k = Inr c" by blast
  from process_existing_blocks_map [OF w parse assms(3)] assms(1)
  have dr: "distinct (map fst underground_blocks)"
    and mr: "\<forall>k. map_of underground_blocks k = retained w (map_of blks) k" by auto
  have "map_of underground_blocks k = Some v" using dr assms(4) by simp
  then have ret: "retained w (map_of blks) k = Some v" using mr by simp
  then obtain c where m: "map_of blks k = Some v" and c: "from_string k = Inr c"
    and keep: "keeps w c v" by (auto simp: retained_Some)
  from create_flat_surface_keys [OF assms(2,5)] have "k \<in> surface_keys bounds" by simp
  then have yc: "y c = TARGET_HEIGHT" using c by (auto elim!: surface_keys_parse)
  have vw: "v = w" using keep yc by (auto simp: keeps_def split: if_splits)
  have "map_of (update_dict surface_blocks underground_blocks) k = Some v"
    using \<open>map_of underground_blocks k = Some v\<close> by (simp add: map_of_update_dict [OF dr])
  moreover have "(k, v) \<in> set blks" using m by (rule map_of_SomeD)
  ultimately show ?thesis using w vw c yc by blast
qed

theorem retained_surface_overlap_witness:
  "process_existing_blocks [(''0,0,0'', 2), (''0,-1,0'', 3)] example_types =
     Inr [(''0,0,0'', 2), (''0,-1,0'', 3)] \<and>
   create_flat_surface \<lparr>min_x = 0, max_x = 0, min_z = 0, max_z = 0\<rparr> example_types =
     Inr [(''0,0,0'', 1)] \<and>
   distinct (map fst [(''0,0,0'', 2 :: int), (''0,-1,0'', 3)]) \<and>
   getattr example_types ''WATER_STILL'' = Inr 2 \<and>
   map_of (update_dict [(''0,0,0'', 1)] [(''0,0,0'', 2 :: int), (''0,-1,0'', 3)]) ''0,0,0'' = Some 2"
proof -
  have p: "process_existing_blocks [(''0,0,0'', 2), (''0,-1,0'', 3)] example_types =
     Inr [(''0,0,0'', 2), (''0,-1,0'', 3)]" by code_simp
  have s: "create_flat_surface \<lparr>min_x = 0, max_x = 0, min_z = 0, max_z = 0\<rparr> example_types =
     Inr [(''0,0,0'', 1)]" by code_simp
  have d: "distinct (map fst [(''0,0,0'', 2 :: int), (''0,-1,0'', 3)])" by simp
  have m: "(''0,0,0'', 2) \<in> set [(''0,0,0'', 2 :: int), (''0,-1,0'', 3)]" by simp
  have ks: "''0,0,0'' \<in> fst ` set [(''0,0,0'', 1 :: int)]" by simp
  from retained_surface_overlap [OF p s d m ks] p s d show ?thesis by simp
qed

subsection \<open>Running the transformation twice\<close>

text \<open>
  C5: when a run on a document succeeds, a second run on the document it wrote succeeds
  too; the block type table is unchanged, so the three ids are the same; the bounding box
  of the first output is the bounding box of the input, so the surface layer and the
  centre, which are functions of the bounding box and the table, are the same; and the
  block mapping of the second output equals that of the first: both have every key once,
  and every key has the same value in both.
\<close>

theorem flatten_idempotent:
  assumes "main upper doc = Inr doc1" and "distinct (map fst (blocks doc))"
  shows "\<exists>doc2. main upper doc1 = Inr doc2 \<and>
           blockTypes doc1 = blockTypes doc \<and> blockTypes doc2 = blockTypes doc1 \<and>
           get_map_bounds (blocks doc1) = get_map_bounds (blocks doc) \<and>
           distinct (map fst (blocks doc1)) \<and> distinct (map fst (blocks doc2)) \<and>
           map_of (blocks doc2) = map_of (blocks doc1)"
proof -
  from main_flattened [OF assms] obtain b g w s where
    b: "get_map_bounds (blocks doc) = Inr b"
    and g: "getattr (BlockTypes_init upper (blockTypes doc)) ''GRASS'' = Inr g"
    and w: "getattr (BlockTypes_init upper (blockTypes doc)) ''WATER_STILL'' = Inr w"
    and s: "getattr (BlockTypes_init upper (blockTypes doc)) ''STONE_BRICKS'' = Inr s"
    and bt: "blockTypes doc1 = blockTypes doc"
    and d1: "distinct (map fst (blocks doc1))"
    and out1: "\<forall>k. map_of (blocks doc1) k = flattened g w s b (map_of (blocks doc)) k"
    by blast
  have b1: "get_map_bounds (blocks doc1) = Inr b"
    by (rule flattened_bounds [OF b]) (simp add: out1)
  from main_success [OF b1 d1 g [folded bt] w [folded bt] s [folded bt]] obtain out2 where
    run2: "main upper doc1 = Inr (doc1\<lparr>blocks := out2\<rparr>)"
    and d2: "distinct (map fst out2)"
    and out2: "\<forall>k. map_of out2 k = flattened g w s b (map_of (blocks doc1)) k"
    by blast
  have "map_of out2 k = map_of (blocks doc1) k" for k
    using flattened_idem [of "map_of (blocks doc1)" g w s b "map_of (blocks doc)" k] out1 out2
    by simp
  then have "map_of out2 = map_of (blocks doc1)" by (simp add: fun_eq_iff)
  with run2 bt b b1 d1 d2 show ?thesis by simp
qed

theorem flatten_idempotent_witness:
  "main ascii_upper \<lparr>blockTypes = example_block_types,
        blocks = [(''0,0,0'', 2), (''1,-2,0'', 3), (''1,4,1'', 1)]\<rparr> =
     Inr \<lparr>blockTypes = example_block_types,
          blocks = [(''0,0,0'', 2), (''0,0,1'', 1), (''1,0,0'', 1), (''1,0,1'', 1),
                    (''1,-2,0'', 3), (''0,1,0'', 3), (''0,2,0'', 3)]\<rparr> \<and>
   distinct (map fst [(''0,0,0'', 2 :: int), (''1,-2,0'', 3), (''1,4,1'', 1)]) \<and>
   main ascii_upper \<lparr>blockTypes = example_block_types,
          blocks = [(''0,0,0'', 2), (''0,0,1'', 1), (''1,0,0'', 1), (''1,0,1'', 1),
                    (''1,-2,0'', 3), (''0,1,0'', 3), (''0,2,0'', 3)]\<rparr> =
     Inr \<lparr>blockTypes = example_block_types,
          blocks = [(''0,0,0'', 2), (''0,0,1'', 1), (''1,0,0'', 1), (''1,0,1'', 1),
                    (''1,-2,0'', 3), (''0,1,0'', 3), (''0,2,0'', 3)]\<rparr> \<and>
   get_map_bounds [(''0,0,0'', 2), (''0,0,1'', 1), (''1,0,0'', 1), (''1,0,1'', 1),
                    (''1,-2,0'', 3), (''0,1,0'', 3), (''0,2,0'', 3)] =
     get_map_bounds [(''0,0,0'', 2), (''1,-2,0'', 3), (''1,4,1'', 1)]"
proof -
  let ?doc = "\<lparr>blockTypes = example_block_types,
        blocks = [(''0,0,0'', 2), (''1,-2,0'', 3), (''1,4,1'', 1)]\<rparr>"
  let ?doc1 = "\<lparr>blockTypes = example_block_types,
          blocks = [(''0,0,0'', 2), (''0,0,1'', 1), (''1,0,0'', 1), (''1,0,1'', 1),
                    (''1,-2,0'', 3), (''0,1,0'', 3), (''0,2,0'', 3)]\<rparr>"
  have run1: "main ascii_upper ?doc = Inr ?doc1" by code_simp
  have dist: "distinct (map fst (blocks ?doc))" by simp
  have run2: "main ascii_upper ?doc1 = Inr ?doc1" by code_simp
  from flatten_idempotent [OF run1 dist]
  have "get_map_bounds (blocks ?doc1) = get_map_bounds (blocks ?doc)" by blast
  with run1 dist run2 show ?thesis by simp
qed

end
